theory Spec2Isabelle
  imports Main
begin

section \<open>JavaScript values\<close>

text \<open>
  The channel handles values of TypeScript type \<open>any\<close>. They are modelled by the JSON
  values, \<open>undefined\<close>, Node's \<open>Buffer\<close> and the browser's \<open>ArrayBuffer\<close> (both with
  their bytes). A number is an integer or \<open>NaN\<close>: the code
  only tests numbers for truthiness and compares the retry index with the retry limit.
  An object is the list of its own properties.
\<close>

datatype jsnumber = Num int | NaN

datatype jsval =
    JUndefined
  | JNull
  | JBool bool
  | JNum jsnumber
  | JStr string
  | JArr "jsval list"
  | JObj "(string \<times> jsval) list"
  | JBuf "nat list"
  | JArrayBuffer "nat list"

text \<open>What a JavaScript expression can throw, and what a stream can fail with.\<close>

datatype jserror = TypeError | SyntaxError | TransportError string

text \<open>Truthiness, as \<open>&&\<close>, \<open>? :\<close> and \<open>if\<close> test it.\<close>

fun number_truthy :: "jsnumber \<Rightarrow> bool" where
  "number_truthy (Num n) = (n \<noteq> 0)"
| "number_truthy NaN = False"

fun truthy :: "jsval \<Rightarrow> bool" where
  "truthy JUndefined = False"
| "truthy JNull = False"
| "truthy (JBool b) = b"
| "truthy (JNum n) = number_truthy n"
| "truthy (JStr s) = (s \<noteq> [])"
| "truthy (JArr xs) = True"
| "truthy (JObj kvs) = True"
| "truthy (JBuf bs) = True"
| "truthy (JArrayBuffer bs) = True"

text \<open>
  Property read \<open>v.k\<close>, for the property names the code reads (\<open>type\<close>, \<open>utf8Data\<close>,
  \<open>event\<close>, \<open>data\<close>): reading a property of \<open>null\<close> or \<open>undefined\<close> throws a TypeError,
  a missing property reads as \<open>undefined\<close>, and no primitive, array, Buffer or
  ArrayBuffer has a property of one of these names.
\<close>

fun property :: "jsval \<Rightarrow> string \<Rightarrow> jserror + jsval" where
  "property JUndefined k = Inl TypeError"
| "property JNull k = Inl TypeError"
| "property (JObj kvs) k = Inr (case map_of kvs k of None \<Rightarrow> JUndefined | Some v \<Rightarrow> v)"
| "property v k = Inr JUndefined"

fun typeof :: "jsval \<Rightarrow> string" where
  "typeof JUndefined = ''undefined''"
| "typeof (JBool b) = ''boolean''"
| "typeof (JNum n) = ''number''"
| "typeof (JStr s) = ''string''"
| "typeof v = ''object''"

text \<open>\<open>Buffer.isBuffer\<close>.\<close>

fun isBuffer :: "jsval \<Rightarrow> bool" where
  "isBuffer (JBuf bs) = True"
| "isBuffer v = False"

text \<open>A plain object: an object literal, neither an array nor a byte buffer.\<close>

fun plain_object :: "jsval \<Rightarrow> bool" where
  "plain_object (JObj kvs) = True"
| "plain_object v = False"

section \<open>Message codec\<close>

text \<open>
  \<open>JSON.parse\<close> and \<open>JSON.stringify\<close> belong to the language, not to the repository: the
  codec takes them as parameters. \<open>JSON_parse\<close> returns \<open>Inl\<close> where \<open>JSON.parse\<close> throws.
  Only the \<open>data\<close> field of a \<open>MessageEvent\<close> is read.
\<close>

record MessageEvent =
  data :: jsval

text \<open>
  \<open>_deserializer\<close>: \<open>try { return JSON.parse(e.data) } catch (err) { return e.data }\<close>.
  The result is a sum so that a throw of the function itself would be a value \<open>Inl\<close>.
\<close>

definition deserializer :: "(jsval \<Rightarrow> jserror + jsval) \<Rightarrow> MessageEvent \<Rightarrow> jserror + jsval" where
  "deserializer JSON_parse e =
     (case JSON_parse (data e) of
        Inr v \<Rightarrow> Inr v
      | Inl err \<Rightarrow> Inr (data e))"

text \<open>
  \<open>_serializer\<close>:
  \<open>typeof(data) === 'string' || Buffer.isBuffer(data) ? data : JSON.stringify(data)\<close>.
\<close>

definition serializer :: "(jsval \<Rightarrow> jserror + jsval) \<Rightarrow> jsval \<Rightarrow> jserror + jsval" where
  "serializer JSON_stringify d =
     (if typeof d = ''string'' \<or> isBuffer d then Inr d else JSON_stringify d)"

text \<open>
  \<open>JSON.stringify(value)\<close>, with neither replacer nor indentation, on the values of the
  model, as ECMA-262 defines it. \<open>undefined\<close> has no JSON text (\<open>None\<close>): at top level
  the result is \<open>undefined\<close>, in an array it is written \<open>null\<close>, and a property whose value
  is \<open>undefined\<close> is left out. \<open>NaN\<close> is written \<open>null\<close>. An integer is written in decimal,
  as JavaScript writes the safe integers. A string is quoted, with the quote, the
  backslash and the control characters escaped. A Buffer is written as the object its
  \<open>toJSON\<close> returns; an ArrayBuffer has no enumerable property and is written \<open>{}\<close>.
\<close>

fun show_nat :: "nat \<Rightarrow> string" where
  "show_nat n =
     (if n < 10 then [''0123456789'' ! n]
      else show_nat (n div 10) @ [''0123456789'' ! (n mod 10)])"

declare show_nat.simps [simp del]

definition show_int :: "int \<Rightarrow> string" where
  "show_int i = (if i < 0 then CHR ''-'' # show_nat (nat (- i)) else show_nat (nat i))"

fun number_text :: "jsnumber \<Rightarrow> string" where
  "number_text (Num i) = show_int i"
| "number_text NaN = ''null''"

definition escape_char :: "char \<Rightarrow> string" where
  "escape_char c =
     (if c = CHR 0x22 then [CHR 0x5C, CHR 0x22]
      else if c = CHR 0x5C then [CHR 0x5C, CHR 0x5C]
      else if c = CHR 0x08 then [CHR 0x5C, CHR ''b'']
      else if c = CHR 0x09 then [CHR 0x5C, CHR ''t'']
      else if c = CHR 0x0A then [CHR 0x5C, CHR ''n'']
      else if c = CHR 0x0C then [CHR 0x5C, CHR ''f'']
      else if c = CHR 0x0D then [CHR 0x5C, CHR ''r'']
      else if (of_char c :: nat) < 32 then
        [CHR 0x5C, CHR ''u'', CHR ''0'', CHR ''0'',
         ''0123456789abcdef'' ! ((of_char c :: nat) div 16),
         ''0123456789abcdef'' ! ((of_char c :: nat) mod 16)]
      else [c])"

definition QuoteJSONString :: "string \<Rightarrow> string" where
  "QuoteJSONString s = CHR 0x22 # concat (map escape_char s) @ [CHR 0x22]"

fun join :: "string list \<Rightarrow> string" where
  "join [] = []"
| "join [x] = x"
| "join (x # y # ys) = x @ '','' @ join (y # ys)"

definition array_text :: "string option list \<Rightarrow> string" where
  "array_text xs =
     ''['' @ join (map (\<lambda>x. case x of None \<Rightarrow> ''null'' | Some t \<Rightarrow> t) xs) @ '']''"

definition object_text :: "(string \<times> string option) list \<Rightarrow> string" where
  "object_text kvs =
     ''{'' @
     join (concat (map (\<lambda>p. case snd p of
                                None \<Rightarrow> []
                              | Some t \<Rightarrow> [QuoteJSONString (fst p) @ '':'' @ t]) kvs)) @
     ''}''"

primrec stringify :: "jsval \<Rightarrow> string option" where
  "stringify JUndefined = None"
| "stringify JNull = Some ''null''"
| "stringify (JBool b) = Some (if b then ''true'' else ''false'')"
| "stringify (JNum n) = Some (number_text n)"
| "stringify (JStr s) = Some (QuoteJSONString s)"
| "stringify (JArr xs) = Some (array_text (map stringify xs))"
| "stringify (JObj kvs) = Some (object_text (map (map_prod (\<lambda>k. k) stringify) kvs))"
| "stringify (JBuf bs) =
     Some (object_text
       [(''type'', Some (QuoteJSONString ''Buffer'')),
        (''data'', Some (array_text (map (\<lambda>b. Some (show_nat b)) bs)))])"
| "stringify (JArrayBuffer bs) = Some ''{}''"

definition JSON_stringify_ecma :: "jsval \<Rightarrow> jserror + jsval" where
  "JSON_stringify_ecma v = Inr (case stringify v of None \<Rightarrow> JUndefined | Some t \<Rightarrow> JStr t)"

section \<open>Streams and the derived views\<close>

text \<open>
  What an observer of a stream receives is a list of notifications. The RxJS operators
  the class uses are modelled on such lists: a projection or predicate that throws turns
  into the error notification of the result, and nothing follows a terminal
  notification.
\<close>

datatype 'a notification = Next 'a | Error jserror | Complete

text \<open>A notification that ends a stream.\<close>

fun terminal :: "'a notification \<Rightarrow> bool" where
  "terminal (Next x) = False"
| "terminal (Error e) = True"
| "terminal Complete = True"

fun map_op :: "('a \<Rightarrow> jserror + 'b) \<Rightarrow> 'a notification list \<Rightarrow> 'b notification list" where
  "map_op f [] = []"
| "map_op f (Next x # ns) =
     (case f x of Inl e \<Rightarrow> [Error e] | Inr y \<Rightarrow> Next y # map_op f ns)"
| "map_op f (Error e # ns) = [Error e]"
| "map_op f (Complete # ns) = [Complete]"

fun filter_op :: "('a \<Rightarrow> jserror + bool) \<Rightarrow> 'a notification list \<Rightarrow> 'a notification list" where
  "filter_op p [] = []"
| "filter_op p (Next x # ns) =
     (case p x of
        Inl e \<Rightarrow> [Error e]
      | Inr b \<Rightarrow> if b then Next x # filter_op p ns else filter_op p ns)"
| "filter_op p (Error e # ns) = [Error e]"
| "filter_op p (Complete # ns) = [Complete]"

text \<open>
  \<open>catchError(_ => of(_))\<close>: values pass; on an error the operator switches to the
  stream \<open>of(error)\<close>, which emits the error as a value and completes.
\<close>

fun catchError_of :: "jsval notification list \<Rightarrow> (jsval + jserror) notification list" where
  "catchError_of [] = []"
| "catchError_of (Next x # ns) = Next (Inl x) # catchError_of ns"
| "catchError_of (Error e # ns) = [Next (Inr e), Complete]"
| "catchError_of (Complete # ns) = [Complete]"

text \<open>
  The projection of \<open>_message$\<close>:
  \<open>(message.type && message.type === 'utf8' && message.utf8Data) ? message.utf8Data : message\<close>.
\<close>

definition utf8_projection :: "jsval \<Rightarrow> jserror + jsval" where
  "utf8_projection message =
     (case property message ''type'' of
        Inl e \<Rightarrow> Inl e
      | Inr t \<Rightarrow>
          if truthy t \<and> t = JStr ''utf8'' then
            (case property message ''utf8Data'' of
               Inl e \<Rightarrow> Inl e
             | Inr u \<Rightarrow> if truthy u then Inr u else Inr message)
          else Inr message)"

text \<open>
  The predicate of \<open>_message$\<close>:
  \<open>message.event && message.event !== 'error' && message.event !== 'close' &&
    message.event === event && message.data\<close>; \<open>filter\<close> tests its result for truthiness.
\<close>

definition event_filter :: "string \<Rightarrow> jsval \<Rightarrow> jserror + bool" where
  "event_filter event message =
     (case property message ''event'' of
        Inl e \<Rightarrow> Inl e
      | Inr ev \<Rightarrow>
          if truthy ev \<and> ev \<noteq> JStr ''error'' \<and> ev \<noteq> JStr ''close'' \<and> ev = JStr event then
            (case property message ''data'' of
               Inl e \<Rightarrow> Inl e
             | Inr d \<Rightarrow> Inr (truthy d))
          else Inr False)"

definition message_dollar :: "string \<Rightarrow> jsval notification list \<Rightarrow> jsval notification list" where
  "message_dollar event ns = filter_op (event_filter event) (map_op utf8_projection ns)"

text \<open>\<open>on$\<close>: \<open>_message$(event).pipe(map(_ => _.data))\<close>.\<close>

definition on_dollar :: "string \<Rightarrow> jsval notification list \<Rightarrow> jsval notification list" where
  "on_dollar event ns = map_op (\<lambda>m. property m ''data'') (message_dollar event ns)"

text \<open>
  \<open>on\<close>: the three callbacks subscribed to \<open>_message$(event)\<close>, as the list of the calls
  of \<open>cb\<close> they make: \<open>cb(message.data)\<close>, \<open>cb(error)\<close> when the event name is
  \<open>'error'\<close>, \<open>cb()\<close> when it is \<open>'close'\<close>. A message that has passed the filter
  is an object, so that reading its \<open>data\<close> does not throw.
\<close>

datatype cb_call = CbData jsval | CbError jserror | CbNoArg

fun on_observer :: "string \<Rightarrow> jsval notification \<Rightarrow> cb_call list" where
  "on_observer event (Next message) =
     (case property message ''data'' of Inr d \<Rightarrow> [CbData d] | Inl e \<Rightarrow> [])"
| "on_observer event (Error error) = (if event = ''error'' then [CbError error] else [])"
| "on_observer event Complete = (if event = ''close'' then [CbNoArg] else [])"

definition on :: "string \<Rightarrow> jsval notification list \<Rightarrow> cb_call list" where
  "on event ns = concat (map (on_observer event) (message_dollar event ns))"

text \<open>\<open>onError$\<close>: \<open>this.pipe(catchError(_ => of(_)))\<close>.\<close>

definition onError_dollar :: "jsval notification list \<Rightarrow> (jsval + jserror) notification list" where
  "onError_dollar ns = catchError_of ns"

section \<open>The channel\<close>

text \<open>
  The construction input: a bare url, or a configuration. The \<open>WebSocketCtor\<close> override
  is a constructor of the transport and has no counterpart here.
\<close>

record RxSocketClientConfig =
  url :: string
  protocol :: "string list option"
  binaryType :: "string option"
  reconnectInterval :: "jsnumber option"
  reconnectAttempts :: "jsnumber option"

datatype urlConfigOrSource = Url string | Config RxSocketClientConfig

text \<open>
  \<open>(<RxSocketClientConfig> urlConfigOrSource).reconnectInterval\<close> and \<open>.reconnectAttempts\<close>:
  a string has no such property, an absent field reads as \<open>undefined\<close> (\<open>None\<close>).
\<close>

fun config_reconnectInterval :: "urlConfigOrSource \<Rightarrow> jsnumber option" where
  "config_reconnectInterval (Url u) = None"
| "config_reconnectInterval (Config c) = reconnectInterval c"

fun config_reconnectAttempts :: "urlConfigOrSource \<Rightarrow> jsnumber option" where
  "config_reconnectAttempts (Url u) = None"
| "config_reconnectAttempts (Config c) = reconnectAttempts c"

text \<open>\<open>if (x) { field = x } else { field = d }\<close> on an optional number.\<close>

fun or_default :: "jsnumber option \<Rightarrow> jsnumber \<Rightarrow> jsnumber" where
  "or_default None d = d"
| "or_default (Some x) d = (if number_truthy x then x else d)"

text \<open>\<open>index < this._reconnectAttempts\<close>: a comparison with \<open>NaN\<close> is false.\<close>

fun index_less :: "nat \<Rightarrow> jsnumber \<Rightarrow> bool" where
  "index_less i (Num n) = (int i < n)"
| "index_less i NaN = False"

text \<open>
  What the channel asks of the transport adapter: a new \<open>WebSocketSubject\<close> (numbered
  as it is created), and data handed to the \<open>next\<close> of one.
\<close>

datatype transport_call = NewSocket nat | SocketNext nat jsval

text \<open>
  A subscriber of the getter \<open>connectionStatus$\<close>: each subscription has its own
  \<open>distinctUntilChanged\<close>, which holds the last value it let through.
\<close>

record status_observer =
  last_value :: "bool option"
  received :: "bool notification list"

text \<open>
  An observer of the object as a \<open>Subject\<close> (a subscriber of the object itself or of one
  of its views): what it has received, and whether the subject still holds it in its list
  of observers.
\<close>

record subject_observer =
  seen :: "jsval notification list"
  active :: bool

text \<open>
  The object's state. \<open>reconnectInterval'\<close> and \<open>reconnectAttempts'\<close> are the private
  fields \<open>_reconnectInterval\<close> (the period \<open>_reconnect\<close> gives the timer) and
  \<open>_reconnectAttempts\<close>. \<open>socket\<close>, \<open>socketSubscription\<close>, \<open>reconnectionObservable\<close> and
  \<open>reconnectionSubscription\<close> are the private fields of these names (\<open>None\<close>, \<open>False\<close>:
  \<open>undefined\<close>); sockets and timers are named by the number of their creation.
  \<open>isStopped\<close> is the \<open>Subject\<close>'s own flag; \<open>thrownError\<close> stands for its fields
  \<open>hasError\<close> and \<open>thrownError\<close>, which are set together (\<open>None\<close>: \<open>hasError\<close> is false);
  \<open>observers\<close> are the subscribers of the subject, in the order of their subscription,
  those it has dropped from its list included. \<open>emitted\<close> is what the object, as a
  \<open>Subject\<close>, has sent to an observer subscribed since construction.
  \<open>statusStopped\<close> is the flag of \<open>_connectionStatus$\<close>, \<open>status_key\<close> the
  \<open>distinctUntilChanged\<close> of the constructor's own subscription.
  \<open>subscribed\<close> are the sockets whose subscription (\<open>_connect\<close>) is open, \<open>timers\<close> the
  subscribed retry timers with the index \<open>takeWhile\<close> gives their next tick, and
  \<open>transport\<close> the calls made on the transport adapter.
\<close>

record RxSocketClientSubject =
  reconnectInterval' :: jsnumber
  reconnectAttempts' :: jsnumber
  socket :: "nat option"
  socketSubscription :: "nat option"
  reconnectionObservable :: bool
  reconnectionSubscription :: "nat option"
  isStopped :: bool
  thrownError :: "jserror option"
  observers :: "subject_observer list"
  emitted :: "jsval notification list"
  statusStopped :: bool
  status_key :: "bool option"
  status_observers :: "status_observer list"
  next_id :: nat
  subscribed :: "nat list"
  timers :: "(nat \<times> nat) list"
  transport :: "transport_call list"

text \<open>
  What \<open>next\<close>, and what \<open>error\<close> or \<open>complete\<close>, do to one observer: only an observer
  the subject still holds receives the notification, and a terminal one drops it from
  the list.
\<close>

definition observer_next :: "jsval \<Rightarrow> subject_observer \<Rightarrow> subject_observer" where
  "observer_next m ob = (if active ob then ob\<lparr>seen := seen ob @ [Next m]\<rparr> else ob)"

definition observer_end :: "jsval notification \<Rightarrow> subject_observer \<Rightarrow> subject_observer" where
  "observer_end n ob = (if active ob then ob\<lparr>seen := seen ob @ [n], active := False\<rparr> else ob)"

text \<open>
  \<open>next\<close>, \<open>error\<close> and \<open>complete\<close> of the \<open>Subject\<close> (RxJS 6) the class extends.
  \<open>next\<close> does nothing on a stopped subject. \<open>error\<close> has no such test: it sets
  \<open>hasError\<close>, \<open>thrownError\<close> and \<open>isStopped\<close>, notifies the observers in the list and
  empties the list; \<open>complete\<close> likewise sets \<open>isStopped\<close>, notifies and empties the list.
  The observer subscribed since construction is in the list until the subject is stopped.
\<close>

definition this_next :: "jsval \<Rightarrow> RxSocketClientSubject \<Rightarrow> RxSocketClientSubject" where
  "this_next m s =
     (if isStopped s then s
      else s\<lparr>emitted := emitted s @ [Next m],
             observers := map (observer_next m) (observers s)\<rparr>)"

definition this_error :: "jserror \<Rightarrow> RxSocketClientSubject \<Rightarrow> RxSocketClientSubject" where
  "this_error err s =
     s\<lparr>thrownError := Some err,
       isStopped := True,
       emitted := (if isStopped s then emitted s else emitted s @ [Error err]),
       observers := map (observer_end (Error err)) (observers s)\<rparr>"

definition this_complete :: "RxSocketClientSubject \<Rightarrow> RxSocketClientSubject" where
  "this_complete s =
     s\<lparr>isStopped := True,
       emitted := (if isStopped s then emitted s else emitted s @ [Complete]),
       observers := map (observer_end Complete) (observers s)\<rparr>"

text \<open>
  \<open>subscribe\<close> of the \<open>Subject\<close>: a subject with \<open>hasError\<close> sends the new observer
  \<open>thrownError\<close>, a stopped one the completion, and neither keeps it; otherwise the
  observer joins the list.
\<close>

definition this_subscribe :: "RxSocketClientSubject \<Rightarrow> RxSocketClientSubject" where
  "this_subscribe s =
     s\<lparr>observers := observers s @
         [case thrownError s of
            Some err \<Rightarrow> \<lparr>seen = [Error err], active = False\<rparr>
          | None \<Rightarrow>
              if isStopped s then \<lparr>seen = [Complete], active = False\<rparr>
              else \<lparr>seen = [], active = True\<rparr>]\<rparr>"

text \<open>\<open>_cleanSocket\<close>.\<close>

definition cleanSocket :: "RxSocketClientSubject \<Rightarrow> RxSocketClientSubject" where
  "cleanSocket s =
     (case socketSubscription s of
        Some k \<Rightarrow> s\<lparr>subscribed := removeAll k (subscribed s)\<rparr>
      | None \<Rightarrow> s)\<lparr>socket := None\<rparr>"

text \<open>\<open>_cleanReconnection\<close>.\<close>

definition cleanReconnection :: "RxSocketClientSubject \<Rightarrow> RxSocketClientSubject" where
  "cleanReconnection s =
     (case reconnectionSubscription s of
        Some t \<Rightarrow> s\<lparr>timers := filter (\<lambda>p. fst p \<noteq> t) (timers s)\<rparr>
      | None \<Rightarrow> s)\<lparr>reconnectionObservable := False\<rparr>"

text \<open>\<open>_connect\<close>: a new \<open>WebSocketSubject\<close>, subscribed.\<close>

definition connect :: "RxSocketClientSubject \<Rightarrow> RxSocketClientSubject" where
  "connect s =
     s\<lparr>socket := Some (next_id s),
       socketSubscription := Some (next_id s),
       subscribed := subscribed s @ [next_id s],
       transport := transport s @ [NewSocket (next_id s)],
       next_id := Suc (next_id s)\<rparr>"

text \<open>\<open>_reconnect\<close>: a new timer, subscribed; its first tick has index 0.\<close>

definition reconnect :: "RxSocketClientSubject \<Rightarrow> RxSocketClientSubject" where
  "reconnect s =
     s\<lparr>reconnectionObservable := True,
       reconnectionSubscription := Some (next_id s),
       timers := timers s @ [(next_id s, 0)],
       next_id := Suc (next_id s)\<rparr>"

text \<open>
  The callback the constructor subscribes to \<open>connectionStatus$\<close>:
  \<open>if (!this._reconnectionObservable && typeof(isConnected) === 'boolean' && !isConnected)
    this._reconnect()\<close>.
\<close>

definition status_subscription :: "bool \<Rightarrow> RxSocketClientSubject \<Rightarrow> RxSocketClientSubject" where
  "status_subscription isConnected s =
     (if \<not> reconnectionObservable s \<and> \<not> isConnected then reconnect s else s)"

text \<open>\<open>distinctUntilChanged\<close> in front of one subscriber.\<close>

definition distinctUntilChanged :: "bool \<Rightarrow> status_observer \<Rightarrow> status_observer" where
  "distinctUntilChanged v ob =
     (if last_value ob = Some v then ob
      else ob\<lparr>last_value := Some v, received := received ob @ [Next v]\<rparr>)"

text \<open>
  \<open>this._connectionStatus$.next(v)\<close>: to the constructor's subscription first, then to
  the other subscribers, each behind its own \<open>distinctUntilChanged\<close>.
\<close>

definition connectionStatus_next :: "bool \<Rightarrow> RxSocketClientSubject \<Rightarrow> RxSocketClientSubject" where
  "connectionStatus_next v s =
     (if statusStopped s then s
      else
        let s1 = (if status_key s = Some v then s
                  else status_subscription v (s\<lparr>status_key := Some v\<rparr>))
        in s1\<lparr>status_observers := map (distinctUntilChanged v) (status_observers s1)\<rparr>)"

text \<open>\<open>this._connectionStatus$.complete()\<close>.\<close>

definition connectionStatus_complete :: "RxSocketClientSubject \<Rightarrow> RxSocketClientSubject" where
  "connectionStatus_complete s =
     (if statusStopped s then s
      else s\<lparr>statusStopped := True,
             status_observers :=
               map (\<lambda>ob. ob\<lparr>received := received ob @ [Complete]\<rparr>) (status_observers s)\<rparr>)"

text \<open>A new subscriber of \<open>connectionStatus$\<close>; a stopped subject completes it at once.\<close>

definition subscribe_status :: "RxSocketClientSubject \<Rightarrow> RxSocketClientSubject" where
  "subscribe_status s =
     s\<lparr>status_observers := status_observers s @
         [\<lparr>last_value = None, received = (if statusStopped s then [Complete] else [])\<rparr>]\<rparr>"

text \<open>\<open>openObserver.next\<close> and \<open>closeObserver.next\<close> of the configuration.\<close>

definition openObserver :: "RxSocketClientSubject \<Rightarrow> RxSocketClientSubject" where
  "openObserver s = connectionStatus_next True s"

definition closeObserver :: "RxSocketClientSubject \<Rightarrow> RxSocketClientSubject" where
  "closeObserver s = connectionStatus_next False (cleanSocket s)"

text \<open>The two callbacks \<open>_connect\<close> subscribes to the socket.\<close>

definition socket_next :: "jsval \<Rightarrow> RxSocketClientSubject \<Rightarrow> RxSocketClientSubject" where
  "socket_next m s = this_next m s"

definition socket_error :: "jserror \<Rightarrow> RxSocketClientSubject \<Rightarrow> RxSocketClientSubject" where
  "socket_error err s =
     (if socket s = None then reconnect (cleanReconnection s) else this_error err s)"

text \<open>The callbacks \<open>_reconnect\<close> subscribes to the timer: a tick, and its completion.\<close>

definition reconnection_complete :: "RxSocketClientSubject \<Rightarrow> RxSocketClientSubject" where
  "reconnection_complete s =
     (let s1 = cleanReconnection s
      in if socket s1 = None then connectionStatus_complete (this_complete s1) else s1)"

text \<open>
  A tick of timer \<open>t\<close>, through
  \<open>takeWhile((v, index) => index < this._reconnectAttempts && !this._socket)\<close>: while
  the predicate holds the tick reaches \<open>_connect\<close>; the first tick on which it fails
  completes the timer's stream, which ends the timer and runs the completion callback.
\<close>

definition tick :: "nat \<Rightarrow> RxSocketClientSubject \<Rightarrow> RxSocketClientSubject" where
  "tick t s =
     (case map_of (timers s) t of
        None \<Rightarrow> s
      | Some index \<Rightarrow>
          if index_less index (reconnectAttempts' s) \<and> socket s = None then
            connect (s\<lparr>timers := map (\<lambda>p. if fst p = t then (t, Suc (snd p)) else p) (timers s)\<rparr>)
          else
            reconnection_complete (s\<lparr>timers := filter (\<lambda>p. fst p \<noteq> t) (timers s)\<rparr>))"

text \<open>
  \<open>send\<close>: \<open>this._socket.next(data)\<close>; the call on \<open>undefined\<close> throws a TypeError.
  \<open>emit\<close>: \<open>this.send({ event, data })\<close>.
\<close>

definition send :: "jsval \<Rightarrow> RxSocketClientSubject \<Rightarrow> jserror + RxSocketClientSubject" where
  "send d s =
     (case socket s of
        None \<Rightarrow> Inl TypeError
      | Some k \<Rightarrow> Inr (s\<lparr>transport := transport s @ [SocketNext k d]\<rparr>))"

definition emit :: "string \<Rightarrow> jsval \<Rightarrow> RxSocketClientSubject \<Rightarrow> jserror + RxSocketClientSubject" where
  "emit event d s = send (JObj [(''event'', JStr event), (''data'', d)]) s"

text \<open>
  The constructor: the defaults of the retry interval and retry limit, \<open>_connect()\<close>, and
  the subscription to \<open>connectionStatus$\<close> (its \<open>distinctUntilChanged\<close> has let nothing
  through yet).
\<close>

definition construct :: "urlConfigOrSource \<Rightarrow> RxSocketClientSubject" where
  "construct arg =
     connect
       \<lparr>reconnectInterval' = or_default (config_reconnectInterval arg) (Num 5000),
        reconnectAttempts' = or_default (config_reconnectAttempts arg) (Num 10),
        socket = None,
        socketSubscription = None,
        reconnectionObservable = False,
        reconnectionSubscription = None,
        isStopped = False,
        thrownError = None,
        observers = [],
        emitted = [],
        statusStopped = False,
        status_key = None,
        status_observers = [],
        next_id = 0,
        subscribed = [],
        timers = [],
        transport = []\<rparr>"

text \<open>
  What can happen to a constructed channel: the transport's open and close
  notifications, a message (the value \<open>_deserializer\<close> returned for it) or an error of
  socket \<open>k\<close> (they reach the callbacks of \<open>_connect\<close> only while that socket's
  subscription is open, and an error closes it), a
  tick of timer \<open>t\<close> (only a subscribed timer ticks), and the calls \<open>send(data)\<close>,
  \<open>connectionStatus$.subscribe\<close> and \<open>subscribe\<close> (of the object itself or of one of its
  views) of the channel's user. A \<open>send\<close> that throws leaves the channel as it was.
\<close>

datatype event =
    Open
  | Close
  | Message nat jsval
  | SocketError nat jserror
  | Tick nat
  | Send jsval
  | SubscribeStatus
  | Subscribe

fun step :: "event \<Rightarrow> RxSocketClientSubject \<Rightarrow> RxSocketClientSubject" where
  "step Open s = openObserver s"
| "step Close s = closeObserver s"
| "step (Message k m) s = (if k \<in> set (subscribed s) then socket_next m s else s)"
| "step (SocketError k err) s =
     (if k \<in> set (subscribed s)
      then socket_error err (s\<lparr>subscribed := removeAll k (subscribed s)\<rparr>)
      else s)"
| "step (Tick t) s = tick t s"
| "step (Send d) s = (case send d s of Inl err \<Rightarrow> s | Inr s' \<Rightarrow> s')"
| "step SubscribeStatus s = subscribe_status s"
| "step Subscribe s = this_subscribe s"

definition run :: "event list \<Rightarrow> RxSocketClientSubject \<Rightarrow> RxSocketClientSubject" where
  "run evs s = fold step evs s"

section \<open>Invariants of the channel\<close>

text \<open>
  The timers: none while \<open>_reconnectionObservable\<close> is undefined, otherwise exactly the
  one \<open>_reconnectionSubscription\<close> holds. The sockets: at most one subscription is open,
  that of the socket in \<open>_socket\<close>. The channel's own stream: values, then at most one
  terminal notification, there exactly when the subject is stopped. A subscriber of the
  status stream: no value twice in a row; \<open>distinctUntilChanged\<close> holds the value
  received last; a completed status stream has told it so.
\<close>

definition timer_inv :: "RxSocketClientSubject \<Rightarrow> bool" where
  "timer_inv s =
     (case timers s of
        [] \<Rightarrow> \<not> reconnectionObservable s
      | [p] \<Rightarrow> reconnectionObservable s \<and> reconnectionSubscription s = Some (fst p)
      | _ \<Rightarrow> False)"

definition socket_inv :: "RxSocketClientSubject \<Rightarrow> bool" where
  "socket_inv s =
     (case subscribed s of
        [] \<Rightarrow> True
      | [k] \<Rightarrow> socket s = Some k \<and> socketSubscription s = Some k
      | _ \<Rightarrow> False)"

definition emitted_inv :: "RxSocketClientSubject \<Rightarrow> bool" where
  "emitted_inv s =
     (if isStopped s
      then emitted s \<noteq> [] \<and> terminal (last (emitted s)) \<and>
           list_all (\<lambda>n. \<not> terminal n) (butlast (emitted s))
      else list_all (\<lambda>n. \<not> terminal n) (emitted s))"

definition observer_inv :: "bool \<Rightarrow> status_observer \<Rightarrow> bool" where
  "observer_inv stopped ob =
     (distinct_adj (received ob) \<and>
      (if stopped then received ob \<noteq> [] \<and> last (received ob) = Complete
       else (case last_value ob of
               None \<Rightarrow> received ob = []
             | Some v \<Rightarrow> received ob \<noteq> [] \<and> last (received ob) = Next v)))"

definition status_inv :: "RxSocketClientSubject \<Rightarrow> bool" where
  "status_inv s =
     ((statusStopped s \<longrightarrow> isStopped s) \<and>
      list_all (observer_inv (statusStopped s)) (status_observers s))"

text \<open>
  An observer of the subject: while the subject holds it, the subject is not stopped and
  the observer has received values only; once dropped, it has received values and then
  one terminal notification. The subject has an error only when stopped.
\<close>

definition subject_observer_inv :: "bool \<Rightarrow> subject_observer \<Rightarrow> bool" where
  "subject_observer_inv stopped ob =
     (if active ob
      then \<not> stopped \<and> list_all (\<lambda>n. \<not> terminal n) (seen ob)
      else seen ob \<noteq> [] \<and> terminal (last (seen ob)) \<and>
           list_all (\<lambda>n. \<not> terminal n) (butlast (seen ob)))"

definition subject_inv :: "RxSocketClientSubject \<Rightarrow> bool" where
  "subject_inv s =
     ((thrownError s \<noteq> None \<longrightarrow> isStopped s) \<and>
      list_all (subject_observer_inv (isStopped s)) (observers s))"

definition invariant :: "RxSocketClientSubject \<Rightarrow> bool" where
  "invariant s =
     (timer_inv s \<and> socket_inv s \<and> emitted_inv s \<and> status_inv s \<and> subject_inv s)"

text \<open>A call that creates a socket.\<close>

fun newSocket :: "transport_call \<Rightarrow> bool" where
  "newSocket (NewSocket k) = True"
| "newSocket (SocketNext k d) = False"

text \<open>
  The channel after its retries are exhausted: no socket, no open subscription, no timer,
  both streams stopped.
\<close>

definition exhausted :: "RxSocketClientSubject \<Rightarrow> bool" where
  "exhausted s =
     (socket s = None \<and> subscribed s = [] \<and> timers s = [] \<and> isStopped s \<and> statusStopped s)"

section \<open>The message codec\<close>

lemma typeof_string_iff: "typeof x = ''string'' \<longleftrightarrow> (\<exists>s. x = JStr s)"
  by (cases x) simp_all

lemma isBuffer_iff: "isBuffer x \<longleftrightarrow> (\<exists>b. x = JBuf b)"
  by (cases x) simp_all

text \<open>
  Claim C5, amended. \<open>serialize\<close> returns a string or a Node Buffer as it is and
  JSON-encodes every other value, an ArrayBuffer included. For a plain object,
  \<open>deserialize\<close> of the serialized payload is what \<open>JSON.parse\<close> returns for the text
  \<open>JSON.stringify\<close> gave (the text itself if \<open>JSON.parse\<close> throws): it is the object
  exactly when the JSON codec round-trips the object. This holds for every
  \<open>JSON.stringify\<close> and \<open>JSON.parse\<close>; with the language's \<open>JSON.stringify\<close> the payload
  of a plain object is always a text.
\<close>

theorem serializer_pass_through_roundtrip:
  "(typeof x = ''string'' \<or> isBuffer x \<longrightarrow> serializer JSON_stringify x = Inr x) \<and>
   serializer JSON_stringify (JStr s) = Inr (JStr s) \<and>
   serializer JSON_stringify (JBuf b) = Inr (JBuf b) \<and>
   (typeof x \<noteq> ''string'' \<and> \<not> isBuffer x \<longrightarrow> serializer JSON_stringify x = JSON_stringify x) \<and>
   serializer JSON_stringify (JArrayBuffer b) = JSON_stringify (JArrayBuffer b) \<and>
   (plain_object ob \<and> JSON_stringify ob = Inr w \<and> JSON_parse w = Inr ob \<longrightarrow>
      serializer JSON_stringify ob = Inr w \<and> deserializer JSON_parse \<lparr>data = w\<rparr> = Inr ob) \<and>
   (plain_object ob \<and> JSON_stringify ob = Inr w \<and> JSON_parse w = Inr v \<longrightarrow>
      serializer JSON_stringify ob = Inr w \<and>
      deserializer JSON_parse \<lparr>data = w\<rparr> = Inr v \<and>
      (deserializer JSON_parse \<lparr>data = w\<rparr> = Inr ob) = (v = ob)) \<and>
   (plain_object ob \<and> JSON_stringify ob = Inr w \<and> JSON_parse w = Inl err \<longrightarrow>
      serializer JSON_stringify ob = Inr w \<and> deserializer JSON_parse \<lparr>data = w\<rparr> = Inr w) \<and>
   (plain_object ob \<longrightarrow> (\<exists>text. serializer JSON_stringify_ecma ob = Inr (JStr text)))"
proof -
  have pass: "typeof x = ''string'' \<or> isBuffer x \<longrightarrow> serializer JSON_stringify x = Inr x"
    by (simp add: serializer_def)
  have other: "typeof x \<noteq> ''string'' \<and> \<not> isBuffer x \<longrightarrow> serializer JSON_stringify x = JSON_stringify x"
    by (simp add: serializer_def)
  have ser: "serializer JSON_stringify ob = Inr w" if "plain_object ob" "JSON_stringify ob = Inr w"
  proof -
    from that(1) obtain kvs where ob: "ob = JObj kvs" by (cases ob) simp_all
    show ?thesis using that(2) by (simp add: serializer_def ob)
  qed
  have round: "plain_object ob \<and> JSON_stringify ob = Inr w \<and> JSON_parse w = Inr ob \<longrightarrow>
      serializer JSON_stringify ob = Inr w \<and> deserializer JSON_parse \<lparr>data = w\<rparr> = Inr ob"
    using ser by (simp add: deserializer_def)
  have exact: "plain_object ob \<and> JSON_stringify ob = Inr w \<and> JSON_parse w = Inr v \<longrightarrow>
      serializer JSON_stringify ob = Inr w \<and>
      deserializer JSON_parse \<lparr>data = w\<rparr> = Inr v \<and>
      (deserializer JSON_parse \<lparr>data = w\<rparr> = Inr ob) = (v = ob)"
    using ser by (simp add: deserializer_def)
  have thrown: "plain_object ob \<and> JSON_stringify ob = Inr w \<and> JSON_parse w = Inl err \<longrightarrow>
      serializer JSON_stringify ob = Inr w \<and> deserializer JSON_parse \<lparr>data = w\<rparr> = Inr w"
    using ser by (simp add: deserializer_def)
  have encoded: "plain_object ob \<longrightarrow> (\<exists>text. serializer JSON_stringify_ecma ob = Inr (JStr text))"
    by (cases ob) (simp_all add: serializer_def JSON_stringify_ecma_def)
  have rest: "serializer JSON_stringify (JStr s) = Inr (JStr s) \<and>
      serializer JSON_stringify (JBuf b) = Inr (JBuf b) \<and>
      serializer JSON_stringify (JArrayBuffer b) = JSON_stringify (JArrayBuffer b)"
    by (simp add: serializer_def)
  from pass other round exact thrown encoded rest show ?thesis
    by blast
qed

theorem serializer_pass_through_roundtrip_witness:
  "serializer JSON_stringify_ecma (JStr ''abc'') = Inr (JStr ''abc'') \<and>
   serializer JSON_stringify_ecma (JObj []) = Inr (JStr ''{}'') \<and>
   deserializer (\<lambda>w. if w = JStr ''{}'' then Inr (JObj []) else Inl SyntaxError) \<lparr>data = JStr ''{}''\<rparr>
     = Inr (JObj [])"
  using serializer_pass_through_roundtrip
    [where x = "JStr ''abc''" and JSON_stringify = JSON_stringify_ecma and s = "''abc''" and b = "[]"
       and ob = "JObj []" and w = "JStr ''{}''" and v = "JObj []" and err = SyntaxError
       and JSON_parse = "\<lambda>w. if w = JStr ''{}'' then Inr (JObj []) else Inl SyntaxError"]
  by (simp add: JSON_stringify_ecma_def object_text_def)

text \<open>
  Claim C5 as stated fails. \<open>{n: NaN}\<close> and \<open>{n: null}\<close> are serialized to the same
  text, so that no \<open>JSON.parse\<close> makes \<open>deserialize\<close> return both: the round trip
  loses one of the two plain objects. And an ArrayBuffer, a raw byte buffer, is not
  passed through: it is serialized to the text \<open>{}\<close>.
\<close>

theorem roundtrip_loses_NaN_and_ArrayBuffer_is_encoded:
  "serializer JSON_stringify_ecma (JObj [(''n'', JNum NaN)])
     = Inr (JStr (''{'' @ QuoteJSONString ''n'' @ '':null}'')) \<and>
   serializer JSON_stringify_ecma (JObj [(''n'', JNull)])
     = Inr (JStr (''{'' @ QuoteJSONString ''n'' @ '':null}'')) \<and>
   \<not> (\<exists>JSON_parse.
        deserializer JSON_parse \<lparr>data = JStr (''{'' @ QuoteJSONString ''n'' @ '':null}'')\<rparr>
          = Inr (JObj [(''n'', JNum NaN)]) \<and>
        deserializer JSON_parse \<lparr>data = JStr (''{'' @ QuoteJSONString ''n'' @ '':null}'')\<rparr>
          = Inr (JObj [(''n'', JNull)])) \<and>
   serializer JSON_stringify_ecma (JArrayBuffer [1, 2]) = Inr (JStr ''{}'') \<and>
   serializer JSON_stringify_ecma (JArrayBuffer [1, 2]) \<noteq> Inr (JArrayBuffer [1, 2])"
  by (simp add: serializer_def JSON_stringify_ecma_def object_text_def)

text \<open>
  Claim C6. \<open>deserialize\<close> returns a value on every input (it never raises): the decoded
  value when \<open>JSON.parse\<close> returns one, the payload itself when \<open>JSON.parse\<close> throws.
\<close>

theorem deserializer_never_raises:
  "(\<exists>v. deserializer JSON_parse e = Inr v) \<and>
   (\<forall>v. JSON_parse (data e) = Inr v \<longrightarrow> deserializer JSON_parse e = Inr v) \<and>
   (\<forall>err. JSON_parse (data e) = Inl err \<longrightarrow> deserializer JSON_parse e = Inr (data e))"
  by (cases "JSON_parse (data e)") (simp_all add: deserializer_def)

theorem deserializer_never_raises_witness:
  "deserializer (\<lambda>w. if w = JStr ''{}'' then Inr (JObj []) else Inl SyntaxError) \<lparr>data = JStr ''{oops''\<rparr>
     = Inr (JStr ''{oops'') \<and>
   deserializer (\<lambda>w. if w = JStr ''{}'' then Inr (JObj []) else Inl SyntaxError) \<lparr>data = JStr ''{}''\<rparr>
     = Inr (JObj [])"
  using deserializer_never_raises
    [of "\<lambda>w. if w = JStr ''{}'' then Inr (JObj []) else Inl SyntaxError" "\<lparr>data = JStr ''{oops''\<rparr>"]
    deserializer_never_raises
    [of "\<lambda>w. if w = JStr ''{}'' then Inr (JObj []) else Inl SyntaxError" "\<lparr>data = JStr ''{}''\<rparr>"]
  by simp

section \<open>The views \<open>on\<close>, \<open>on$\<close> and \<open>onError$\<close>\<close>

lemma map_op_Next: "Next y \<in> set (map_op f ns) \<Longrightarrow> \<exists>x. Next x \<in> set ns \<and> f x = Inr y"
  by (induction f ns rule: map_op.induct) (auto split: sum.splits)

lemma filter_op_Next: "Next x \<in> set (filter_op p ns) \<Longrightarrow> Next x \<in> set ns \<and> p x = Inr True"
  by (induction p ns rule: filter_op.induct) (auto split: sum.splits if_splits)

lemma event_filter_True:
  "event_filter event n = Inr True \<longleftrightarrow>
     (property n ''event'' = Inr (JStr event) \<and> event \<noteq> [] \<and> event \<noteq> ''error'' \<and> event \<noteq> ''close'' \<and>
      (\<exists>d. property n ''data'' = Inr d \<and> truthy d))"
  by (cases "property n ''event''"; cases "property n ''data''") (auto simp: event_filter_def)

lemma message_dollar_Next:
  assumes "Next n \<in> set (message_dollar event ns)"
  shows "\<exists>m. Next m \<in> set ns \<and> utf8_projection m = Inr n \<and> event_filter event n = Inr True"
proof -
  from assms have a: "Next n \<in> set (map_op utf8_projection ns)" and b: "event_filter event n = Inr True"
    using filter_op_Next [of n "event_filter event" "map_op utf8_projection ns"]
    by (simp_all add: message_dollar_def)
  from map_op_Next [OF a] b show ?thesis by blast
qed

lemma on_CbData:
  assumes "CbData d \<in> set (on event ns)"
  shows "\<exists>n. Next n \<in> set (message_dollar event ns) \<and> property n ''data'' = Inr d"
proof -
  from assms obtain x where x: "x \<in> set (message_dollar event ns)" and d: "CbData d \<in> set (on_observer event x)"
    by (auto simp: on_def)
  from d show ?thesis using x
    by (cases x) (auto split: sum.splits if_splits)
qed

lemma property_defined: "property v k = Inl e \<longleftrightarrow> (v = JUndefined \<or> v = JNull) \<and> e = TypeError"
  by (cases v) auto

lemma utf8_projection_defined:
  assumes "utf8_projection m = Inr n"
  shows "n \<noteq> JUndefined \<and> n \<noteq> JNull"
proof (cases "property m ''type''")
  case (Inl e)
  with assms show ?thesis by (simp add: utf8_projection_def)
next
  case (Inr t)
  then have m: "m \<noteq> JUndefined \<and> m \<noteq> JNull"
    by (cases m) simp_all
  show ?thesis
  proof (cases "truthy t \<and> t = JStr ''utf8''")
    case False
    with assms Inr m show ?thesis by (auto simp: utf8_projection_def)
  next
    case True
    show ?thesis
    proof (cases "property m ''utf8Data''")
      case (Inl e)
      with assms Inr True show ?thesis by (simp add: utf8_projection_def)
    next
      case u: (Inr u)
      show ?thesis
      proof (cases "truthy u")
        case True
        with assms Inr \<open>truthy t \<and> t = JStr ''utf8''\<close> u have "n = u"
          by (simp add: utf8_projection_def)
        with True show ?thesis by auto
      next
        case False
        with assms Inr \<open>truthy t \<and> t = JStr ''utf8''\<close> u have "n = m"
          by (simp add: utf8_projection_def)
        with m show ?thesis by simp
      qed
    qed
  qed
qed

lemma event_filter_total:
  assumes "n \<noteq> JUndefined \<and> n \<noteq> JNull"
  shows "event_filter event n = Inr True \<or> event_filter event n = Inr False"
proof -
  from assms obtain ev where ev: "property n ''event'' = Inr ev"
    by (cases "property n ''event''") (auto simp: property_defined)
  from assms obtain d where d: "property n ''data'' = Inr d"
    by (cases "property n ''data''") (auto simp: property_defined)
  show ?thesis
    by (cases "truthy ev \<and> ev \<noteq> JStr ''error'' \<and> ev \<noteq> JStr ''close'' \<and> ev = JStr event")
       (simp_all add: event_filter_def ev d)
qed

lemma message_dollar_single:
  assumes "utf8_projection m = Inr n"
  shows "message_dollar event [Next m] = (if event_filter event n = Inr True then [Next n] else [])"
proof -
  from event_filter_total [OF utf8_projection_defined [OF assms], of event]
  show ?thesis
    using assms by (auto simp: message_dollar_def)
qed

lemma on_data_matching:
  "(Next d \<in> set (on_dollar event ns) \<or> CbData d \<in> set (on event ns) \<longrightarrow>
      (\<exists>m n. Next m \<in> set ns \<and> utf8_projection m = Inr n \<and>
             property n ''event'' = Inr (JStr event) \<and> event \<noteq> ''error'' \<and> event \<noteq> ''close'' \<and>
             property n ''data'' = Inr d \<and> truthy d)) \<and>
   (utf8_projection m = Inr n \<and> property n ''event'' = Inr (JStr event) \<and> event \<noteq> [] \<and>
    event \<noteq> ''error'' \<and> event \<noteq> ''close'' \<and> property n ''data'' = Inr d \<and> truthy d \<longrightarrow>
      on_dollar event [Next m] = [Next d] \<and> on event [Next m] = [CbData d]) \<and>
   (utf8_projection m = Inr n \<and>
    \<not> (property n ''event'' = Inr (JStr event) \<and> event \<noteq> [] \<and> event \<noteq> ''error'' \<and> event \<noteq> ''close'' \<and>
       (\<exists>d. property n ''data'' = Inr d \<and> truthy d)) \<longrightarrow>
      on_dollar event [Next m] = [] \<and> on event [Next m] = [])"
proof (intro conjI impI)
  assume "Next d \<in> set (on_dollar event ns) \<or> CbData d \<in> set (on event ns)"
  then have "\<exists>n. Next n \<in> set (message_dollar event ns) \<and> property n ''data'' = Inr d"
  proof
    assume "Next d \<in> set (on_dollar event ns)"
    then show ?thesis
      using map_op_Next [of d "\<lambda>m. property m ''data''" "message_dollar event ns"]
      by (simp add: on_dollar_def)
  next
    assume "CbData d \<in> set (on event ns)"
    then show ?thesis by (rule on_CbData)
  qed
  then obtain n where n: "Next n \<in> set (message_dollar event ns)" and d: "property n ''data'' = Inr d"
    by blast
  from message_dollar_Next [OF n] obtain m where
    m: "Next m \<in> set ns" "utf8_projection m = Inr n" and f: "event_filter event n = Inr True"
    by blast
  from f d have "property n ''event'' = Inr (JStr event) \<and> event \<noteq> ''error'' \<and> event \<noteq> ''close'' \<and> truthy d"
    by (auto simp: event_filter_True)
  with m d show "\<exists>m n. Next m \<in> set ns \<and> utf8_projection m = Inr n \<and>
             property n ''event'' = Inr (JStr event) \<and> event \<noteq> ''error'' \<and> event \<noteq> ''close'' \<and>
             property n ''data'' = Inr d \<and> truthy d"
    by blast
next
  assume a: "utf8_projection m = Inr n \<and> property n ''event'' = Inr (JStr event) \<and> event \<noteq> [] \<and>
    event \<noteq> ''error'' \<and> event \<noteq> ''close'' \<and> property n ''data'' = Inr d \<and> truthy d"
  then have f: "event_filter event n = Inr True"
    by (auto simp: event_filter_True)
  from a f have md: "message_dollar event [Next m] = [Next n]"
    by (simp add: message_dollar_single)
  show "on_dollar event [Next m] = [Next d]"
    using a md by (simp add: on_dollar_def)
  show "on event [Next m] = [CbData d]"
    using a md by (simp add: on_def)
next
  assume a: "utf8_projection m = Inr n \<and>
    \<not> (property n ''event'' = Inr (JStr event) \<and> event \<noteq> [] \<and> event \<noteq> ''error'' \<and> event \<noteq> ''close'' \<and>
       (\<exists>d. property n ''data'' = Inr d \<and> truthy d))"
  then have f: "event_filter event n \<noteq> Inr True"
    by (simp only: event_filter_True) simp
  from a f have md: "message_dollar event [Next m] = []"
    by (simp add: message_dollar_single)
  show "on_dollar event [Next m] = []"
    using md by (simp add: on_dollar_def)
  show "on event [Next m] = []"
    using md by (simp add: on_def)
qed

lemma on_calls:
  assumes "c \<in> set (on event ns)"
  shows "(\<exists>d. c = CbData d) \<or>
         (event = ''error'' \<and> (\<exists>e. c = CbError e \<and> Error e \<in> set (message_dollar event ns))) \<or>
         (event = ''close'' \<and> c = CbNoArg \<and> Complete \<in> set (message_dollar event ns))"
proof -
  from assms obtain x where x: "x \<in> set (message_dollar event ns)" and c: "c \<in> set (on_observer event x)"
    by (auto simp: on_def)
  from c x show ?thesis
    by (cases x) (auto split: sum.splits if_splits)
qed

lemma on_error_call:
  assumes "Error e \<in> set (message_dollar event ns)"
  shows "(CbError e \<in> set (on event ns)) = (event = ''error'')"
proof
  assume "CbError e \<in> set (on event ns)"
  from on_calls [OF this] show "event = ''error''" by auto
next
  assume "event = ''error''"
  then have "CbError e \<in> set (on_observer event (Error e))" by simp
  with assms show "CbError e \<in> set (on event ns)"
    unfolding on_def by (simp only: set_concat set_map) blast
qed

lemma on_close_call:
  assumes "Complete \<in> set (message_dollar event ns)"
  shows "(CbNoArg \<in> set (on event ns)) = (event = ''close'')"
proof
  assume "CbNoArg \<in> set (on event ns)"
  from on_calls [OF this] show "event = ''close''" by auto
next
  assume "event = ''close''"
  then have "CbNoArg \<in> set (on_observer event Complete)" by simp
  with assms show "CbNoArg \<in> set (on event ns)"
    unfolding on_def by (simp only: set_concat set_map) blast
qed

lemma map_op_terminal:
  "Error e \<in> set (map_op f ns) \<Longrightarrow> Error e \<in> set ns \<or> (\<exists>x. Next x \<in> set ns \<and> f x = Inl e)"
  "Complete \<in> set (map_op f ns) \<Longrightarrow> Complete \<in> set ns"
  by (induction f ns rule: map_op.induct) (auto split: sum.splits)

lemma filter_op_terminal:
  "Error e \<in> set (filter_op p ns) \<Longrightarrow> Error e \<in> set ns \<or> (\<exists>x. Next x \<in> set ns \<and> p x = Inl e)"
  "Complete \<in> set (filter_op p ns) \<Longrightarrow> Complete \<in> set ns"
  by (induction p ns rule: filter_op.induct) (auto split: sum.splits if_splits)

lemma utf8_projection_throws:
  "utf8_projection m = Inl e \<Longrightarrow> e = TypeError \<and> (m = JNull \<or> m = JUndefined)"
  by (cases m) (auto simp: utf8_projection_def split: sum.splits if_splits option.splits)

lemma message_dollar_terminal:
  "Error e \<in> set (message_dollar event ns) \<Longrightarrow>
     Error e \<in> set ns \<or> (e = TypeError \<and> (Next JNull \<in> set ns \<or> Next JUndefined \<in> set ns))"
  "Complete \<in> set (message_dollar event ns) \<Longrightarrow> Complete \<in> set ns"
proof -
  assume a: "Error e \<in> set (message_dollar event ns)"
  from filter_op_terminal(1) [of e "event_filter event" "map_op utf8_projection ns"] a
  consider "Error e \<in> set (map_op utf8_projection ns)"
    | n where "Next n \<in> set (map_op utf8_projection ns)" "event_filter event n = Inl e"
    by (auto simp: message_dollar_def)
  then show "Error e \<in> set ns \<or> (e = TypeError \<and> (Next JNull \<in> set ns \<or> Next JUndefined \<in> set ns))"
  proof cases
    case 1
    from map_op_terminal(1) [OF 1] show ?thesis
      using utf8_projection_throws by blast
  next
    case 2
    from map_op_Next [OF 2(1)] obtain m where "utf8_projection m = Inr n" by blast
    from event_filter_total [OF utf8_projection_defined [OF this], of event] 2(2)
    show ?thesis by simp
  qed
next
  assume "Complete \<in> set (message_dollar event ns)"
  then show "Complete \<in> set ns"
    using filter_op_terminal(2) [of "event_filter event" "map_op utf8_projection ns"]
      map_op_terminal(2) [of utf8_projection ns]
    by (simp add: message_dollar_def)
qed

lemma utf8_projection_total:
  assumes "m \<noteq> JNull \<and> m \<noteq> JUndefined"
  shows "\<exists>n. utf8_projection m = Inr n"
proof (cases "utf8_projection m")
  case (Inl e)
  from utf8_projection_throws [OF this] assms show ?thesis by simp
next
  case (Inr n)
  then show ?thesis by simp
qed

lemma reserved_event_filtered:
  assumes "n \<noteq> JUndefined \<and> n \<noteq> JNull" and "event = ''error'' \<or> event = ''close''"
  shows "event_filter event n = Inr False"
proof -
  from assms(1) obtain ev where ev: "property n ''event'' = Inr ev"
    by (cases "property n ''event''") (auto simp: property_defined)
  from assms(1) obtain d where d: "property n ''data'' = Inr d"
    by (cases "property n ''data''") (auto simp: property_defined)
  from assms(2) show ?thesis
    by (auto simp: event_filter_def ev d)
qed

lemma reserved_message_dollar:
  assumes "list_all (\<lambda>m. m \<noteq> JNull \<and> m \<noteq> JUndefined) ms" and "event = ''error'' \<or> event = ''close''"
    and "terminal t"
  shows "message_dollar event (map Next ms @ [t]) = [t]"
  using assms(1)
proof (induction ms)
  case Nil
  from assms(3) show ?case by (cases t) (simp_all add: message_dollar_def)
next
  case (Cons m ms)
  then have m: "m \<noteq> JNull \<and> m \<noteq> JUndefined" and rest: "list_all (\<lambda>m. m \<noteq> JNull \<and> m \<noteq> JUndefined) ms"
    by simp_all
  from utf8_projection_total [OF m] obtain n where n: "utf8_projection m = Inr n" by blast
  from reserved_event_filtered [OF utf8_projection_defined [OF n] assms(2)]
  have f: "event_filter event n = Inr False" .
  from Cons.IH [OF rest] show ?case
    by (simp add: message_dollar_def n f)
qed

lemma on_end_of_stream:
  assumes "list_all (\<lambda>m. m \<noteq> JNull \<and> m \<noteq> JUndefined) ms"
  shows "on ''error'' (map Next ms @ [Error e]) = [CbError e] \<and>
         on ''close'' (map Next ms @ [Complete]) = [CbNoArg]"
  using reserved_message_dollar [OF assms, of "''error''" "Error e"]
    reserved_message_dollar [OF assms, of "''close''" Complete]
  by (simp add: on_def)

text \<open>
  Claim C4, amended. For every event name and every stream of inbound messages, \<open>on$\<close>
  emits a value, and \<open>on\<close> calls the callback with a message's data, only for a message
  whose normalized form has the event field equal to the event name, the name being
  neither \<open>error\<close> nor \<open>close\<close>, and a truthy data field; what is delivered is that data
  field. For an event name other than \<open>error\<close> and \<open>close\<close>, \<open>on\<close> makes no other call
  of the callback. For the name \<open>error\<close> the callback is called with the error that ends
  the filtered stream, and only with it: the error of the channel's stream, or the
  TypeError of a message \<open>null\<close> or \<open>undefined\<close>. For the name \<open>close\<close> it is called
  without argument when the channel's stream completes, and only then. For a single
  message that normalizes, the data is delivered exactly under the conditions above (and
  a non-empty event name), and nothing is delivered otherwise. When no message is \<open>null\<close>
  or \<open>undefined\<close>, the error (completion) of the channel's stream gives exactly one call
  of the callback of \<open>on('error', cb)\<close> (of \<open>on('close', cb)\<close>).
\<close>

theorem on_calls_only_for_matching_messages:
  "(Next d \<in> set (on_dollar event ns) \<or> CbData d \<in> set (on event ns) \<longrightarrow>
      (\<exists>m n. Next m \<in> set ns \<and> utf8_projection m = Inr n \<and>
             property n ''event'' = Inr (JStr event) \<and> event \<noteq> ''error'' \<and> event \<noteq> ''close'' \<and>
             property n ''data'' = Inr d \<and> truthy d)) \<and>
   (event \<noteq> ''error'' \<and> event \<noteq> ''close'' \<and> c \<in> set (on event ns) \<longrightarrow>
      (\<exists>d m n. c = CbData d \<and> Next m \<in> set ns \<and> utf8_projection m = Inr n \<and>
             property n ''event'' = Inr (JStr event) \<and> property n ''data'' = Inr d \<and> truthy d)) \<and>
   (c \<in> set (on event ns) \<longrightarrow>
      (\<exists>d. c = CbData d) \<or>
      (event = ''error'' \<and> (\<exists>e. c = CbError e \<and> Error e \<in> set (message_dollar event ns))) \<or>
      (event = ''close'' \<and> c = CbNoArg \<and> Complete \<in> set (message_dollar event ns))) \<and>
   (Error e \<in> set (message_dollar event ns) \<longrightarrow>
      (CbError e \<in> set (on event ns)) = (event = ''error'') \<and>
      (Error e \<in> set ns \<or> (e = TypeError \<and> (Next JNull \<in> set ns \<or> Next JUndefined \<in> set ns)))) \<and>
   (Complete \<in> set (message_dollar event ns) \<longrightarrow>
      (CbNoArg \<in> set (on event ns)) = (event = ''close'') \<and> Complete \<in> set ns) \<and>
   (list_all (\<lambda>m. m \<noteq> JNull \<and> m \<noteq> JUndefined) ms \<longrightarrow>
      on ''error'' (map Next ms @ [Error e]) = [CbError e] \<and>
      on ''close'' (map Next ms @ [Complete]) = [CbNoArg]) \<and>
   (utf8_projection m = Inr n \<and> property n ''event'' = Inr (JStr event) \<and> event \<noteq> [] \<and>
    event \<noteq> ''error'' \<and> event \<noteq> ''close'' \<and> property n ''data'' = Inr d \<and> truthy d \<longrightarrow>
      on_dollar event [Next m] = [Next d] \<and> on event [Next m] = [CbData d]) \<and>
   (utf8_projection m = Inr n \<and>
    \<not> (property n ''event'' = Inr (JStr event) \<and> event \<noteq> [] \<and> event \<noteq> ''error'' \<and> event \<noteq> ''close'' \<and>
       (\<exists>d. property n ''data'' = Inr d \<and> truthy d)) \<longrightarrow>
      on_dollar event [Next m] = [] \<and> on event [Next m] = [])"
proof -
  note old = on_data_matching [where event = event and ns = ns and m = m and n = n]
  have data: "\<exists>m n. Next m \<in> set ns \<and> utf8_projection m = Inr n \<and>
             property n ''event'' = Inr (JStr event) \<and> event \<noteq> ''error'' \<and> event \<noteq> ''close'' \<and>
             property n ''data'' = Inr d \<and> truthy d"
    if "Next d \<in> set (on_dollar event ns) \<or> CbData d \<in> set (on event ns)" for d
    using old [of d] that by blast
  have calls: "(\<exists>d. c = CbData d) \<or>
      (event = ''error'' \<and> (\<exists>e. c = CbError e \<and> Error e \<in> set (message_dollar event ns))) \<or>
      (event = ''close'' \<and> c = CbNoArg \<and> Complete \<in> set (message_dollar event ns))"
    if "c \<in> set (on event ns)"
    using that by (rule on_calls)
  have only: "\<exists>d m n. c = CbData d \<and> Next m \<in> set ns \<and> utf8_projection m = Inr n \<and>
             property n ''event'' = Inr (JStr event) \<and> property n ''data'' = Inr d \<and> truthy d"
    if "event \<noteq> ''error'' \<and> event \<noteq> ''close'' \<and> c \<in> set (on event ns)"
  proof -
    from calls that obtain d where c: "c = CbData d" by blast
    with that have "CbData d \<in> set (on event ns)" by simp
    with data [of d] c show ?thesis by blast
  qed
  have err: "(CbError e \<in> set (on event ns)) = (event = ''error'') \<and>
      (Error e \<in> set ns \<or> (e = TypeError \<and> (Next JNull \<in> set ns \<or> Next JUndefined \<in> set ns)))"
    if "Error e \<in> set (message_dollar event ns)"
    using on_error_call [OF that] message_dollar_terminal(1) [OF that] by simp
  have cmp: "(CbNoArg \<in> set (on event ns)) = (event = ''close'') \<and> Complete \<in> set ns"
    if "Complete \<in> set (message_dollar event ns)"
    using on_close_call [OF that] message_dollar_terminal(2) [OF that] by simp
  have one: "on_dollar event [Next m] = [Next d] \<and> on event [Next m] = [CbData d]"
    if "utf8_projection m = Inr n \<and> property n ''event'' = Inr (JStr event) \<and> event \<noteq> [] \<and>
      event \<noteq> ''error'' \<and> event \<noteq> ''close'' \<and> property n ''data'' = Inr d \<and> truthy d"
    using old [of d] that by blast
  have none: "on_dollar event [Next m] = [] \<and> on event [Next m] = []"
    if "utf8_projection m = Inr n \<and>
      \<not> (property n ''event'' = Inr (JStr event) \<and> event \<noteq> [] \<and> event \<noteq> ''error'' \<and> event \<noteq> ''close'' \<and>
       (\<exists>d. property n ''data'' = Inr d \<and> truthy d))"
    using old [of d] that by blast
  have ends: "on ''error'' (map Next ms @ [Error e]) = [CbError e] \<and>
      on ''close'' (map Next ms @ [Complete]) = [CbNoArg]"
    if "list_all (\<lambda>m. m \<noteq> JNull \<and> m \<noteq> JUndefined) ms"
    using that by (rule on_end_of_stream)
  from data [of d] only calls err cmp ends one none show ?thesis by blast
qed

theorem on_calls_only_for_matching_messages_witness:
  "on_dollar ''chat'' [Next (JObj [(''event'', JStr ''chat''), (''data'', JStr ''hi'')])] = [Next (JStr ''hi'')] \<and>
   on ''chat'' [Next (JObj [(''event'', JStr ''chat''), (''data'', JStr ''hi'')])] = [CbData (JStr ''hi'')] \<and>
   on ''talk'' [Next (JObj [(''event'', JStr ''chat''), (''data'', JStr ''hi'')])] = [] \<and>
   on ''error'' [Next (JObj [(''event'', JStr ''error''), (''data'', JStr ''hi'')]),
                 Error (TransportError ''lost'')] = [CbError (TransportError ''lost'')] \<and>
   on ''chat'' [Next (JObj [(''event'', JStr ''chat''), (''data'', JStr ''hi'')]),
                Error (TransportError ''lost'')] = [CbData (JStr ''hi'')] \<and>
   on ''close'' [Complete] = [CbNoArg] \<and>
   on ''chat'' [Complete] = []"
  using on_calls_only_for_matching_messages
    [where event = "''chat''" and d = "JStr ''hi''" and c = "CbData (JStr ''hi'')"
       and e = "TransportError ''lost''" and ms = "[JObj [(''event'', JStr ''error''), (''data'', JStr ''hi'')]]"
       and m = "JObj [(''event'', JStr ''chat''), (''data'', JStr ''hi'')]"
       and n = "JObj [(''event'', JStr ''chat''), (''data'', JStr ''hi'')]"
       and ns = "[Next (JObj [(''event'', JStr ''chat''), (''data'', JStr ''hi'')]),
                  Error (TransportError ''lost'')]"]
    on_calls_only_for_matching_messages
    [where event = "''talk''" and d = "JStr ''hi''" and c = CbNoArg and e = TypeError
       and m = "JObj [(''event'', JStr ''chat''), (''data'', JStr ''hi'')]"
       and n = "JObj [(''event'', JStr ''chat''), (''data'', JStr ''hi'')]"
       and ns = "[Complete]"]
    on_calls_only_for_matching_messages
    [where event = "''error''" and d = "JStr ''hi''" and c = "CbError (TransportError ''lost'')"
       and e = "TransportError ''lost''"
       and m = "JObj [(''event'', JStr ''error''), (''data'', JStr ''hi'')]"
       and n = "JObj [(''event'', JStr ''error''), (''data'', JStr ''hi'')]"
       and ns = "[Next (JObj [(''event'', JStr ''error''), (''data'', JStr ''hi'')]),
                  Error (TransportError ''lost'')]"]
    on_calls_only_for_matching_messages
    [where event = "''close''" and d = "JStr ''hi''" and c = CbNoArg and e = TypeError
       and m = "JObj [(''event'', JStr ''chat''), (''data'', JStr ''hi'')]"
       and n = "JObj [(''event'', JStr ''chat''), (''data'', JStr ''hi'')]"
       and ns = "[Complete]"]
  by (simp add: utf8_projection_def on_def message_dollar_def event_filter_def)

text \<open>
  Claim C4 as stated fails: on the inbound message \<open>null\<close> the projection of \<open>_message$\<close>
  throws, the view fails with the TypeError, and \<open>on('error', cb)\<close> calls \<open>cb\<close> with it,
  although no message has an event field equal to \<open>error\<close>.
\<close>

theorem on_error_callback_on_null_message:
  "on ''error'' [Next JNull] = [CbError TypeError]"
  by (simp add: on_def message_dollar_def utf8_projection_def)

text \<open>
  Claim C7, amended. An envelope of type \<open>utf8\<close> whose \<open>utf8Data\<close> is truthy is unwrapped
  to that value before the event filter; one whose \<open>utf8Data\<close> is falsy reaches the filter
  as it is. When the transport delivers the envelope of \<open>{event: "chat", data: "hi"}\<close>,
  \<open>on$("chat")\<close> emits \<open>"hi"\<close>.
\<close>

theorem utf8_envelope_unwrapped_when_truthy:
  "(map_of kvs ''type'' = Some (JStr ''utf8'') \<and> map_of kvs ''utf8Data'' = Some v \<and> truthy v \<longrightarrow>
      utf8_projection (JObj kvs) = Inr v \<and>
      message_dollar event [Next (JObj kvs)] = filter_op (event_filter event) [Next v]) \<and>
   (map_of kvs ''type'' = Some (JStr ''utf8'') \<and> map_of kvs ''utf8Data'' = Some v \<and> \<not> truthy v \<longrightarrow>
      utf8_projection (JObj kvs) = Inr (JObj kvs) \<and>
      message_dollar event [Next (JObj kvs)] = filter_op (event_filter event) [Next (JObj kvs)]) \<and>
   on_dollar ''chat''
     [Next (JObj [(''type'', JStr ''utf8''),
                  (''utf8Data'', JObj [(''event'', JStr ''chat''), (''data'', JStr ''hi'')])])]
     = [Next (JStr ''hi'')]"
proof (intro conjI impI)
  assume a: "map_of kvs ''type'' = Some (JStr ''utf8'') \<and> map_of kvs ''utf8Data'' = Some v \<and> truthy v"
  then show p: "utf8_projection (JObj kvs) = Inr v"
    by (simp add: utf8_projection_def)
  show "message_dollar event [Next (JObj kvs)] = filter_op (event_filter event) [Next v]"
    by (simp add: message_dollar_def p)
next
  assume a: "map_of kvs ''type'' = Some (JStr ''utf8'') \<and> map_of kvs ''utf8Data'' = Some v \<and> \<not> truthy v"
  then show p: "utf8_projection (JObj kvs) = Inr (JObj kvs)"
    by (simp add: utf8_projection_def)
  show "message_dollar event [Next (JObj kvs)] = filter_op (event_filter event) [Next (JObj kvs)]"
    by (simp add: message_dollar_def p)
next
  show "on_dollar ''chat''
     [Next (JObj [(''type'', JStr ''utf8''),
                  (''utf8Data'', JObj [(''event'', JStr ''chat''), (''data'', JStr ''hi'')])])]
     = [Next (JStr ''hi'')]"
    by (simp add: on_dollar_def message_dollar_def utf8_projection_def event_filter_def)
qed

theorem utf8_envelope_unwrapped_when_truthy_witness:
  "utf8_projection (JObj [(''type'', JStr ''utf8''), (''utf8Data'', JNum (Num 7))]) = Inr (JNum (Num 7)) \<and>
   utf8_projection (JObj [(''type'', JStr ''utf8''), (''utf8Data'', JNum (Num 0))])
     = Inr (JObj [(''type'', JStr ''utf8''), (''utf8Data'', JNum (Num 0))])"
  using utf8_envelope_unwrapped_when_truthy
    [where kvs = "[(''type'', JStr ''utf8''), (''utf8Data'', JNum (Num 7))]" and v = "JNum (Num 7)"]
    utf8_envelope_unwrapped_when_truthy
    [where kvs = "[(''type'', JStr ''utf8''), (''utf8Data'', JNum (Num 0))]" and v = "JNum (Num 0)"]
  by simp

text \<open>
  Claim C7 as stated fails: the envelope of the empty string is not unwrapped to the
  empty string, it is kept whole. An envelope of the empty string that has an event and a
  data field of its own passes the event filter, where the empty string would not.
\<close>

theorem utf8_envelope_with_empty_text_kept:
  "utf8_projection (JObj [(''type'', JStr ''utf8''), (''utf8Data'', JStr '''')])
     = Inr (JObj [(''type'', JStr ''utf8''), (''utf8Data'', JStr '''')]) \<and>
   utf8_projection (JObj [(''type'', JStr ''utf8''), (''utf8Data'', JStr '''')]) \<noteq> Inr (JStr '''') \<and>
   on_dollar ''chat''
     [Next (JObj [(''type'', JStr ''utf8''), (''utf8Data'', JStr ''''),
                  (''event'', JStr ''chat''), (''data'', JStr ''x'')])] = [Next (JStr ''x'')] \<and>
   on_dollar ''chat'' [Next (JStr '''')] = []"
  by (simp add: utf8_projection_def on_dollar_def message_dollar_def event_filter_def)

lemma catchError_of_values:
  "catchError_of (map Next vs @ ns) = map (\<lambda>v. Next (Inl v)) vs @ catchError_of ns"
  by (induction vs) simp_all

lemma catchError_of_no_error: "Error e \<notin> set (catchError_of ns)"
  by (induction ns rule: catchError_of.induct) simp_all

section \<open>Reachable states of the channel\<close>

lemmas handler_defs =
  openObserver_def closeObserver_def connectionStatus_next_def
  status_subscription_def reconnect_def cleanSocket_def socket_next_def this_next_def
  socket_error_def this_error_def cleanReconnection_def tick_def connect_def
  reconnection_complete_def this_complete_def connectionStatus_complete_def send_def
  subscribe_status_def this_subscribe_def Let_def

lemma timer_inv_construct: "timer_inv (construct arg)"
  by (simp add: timer_inv_def construct_def connect_def)

lemma timer_inv_step: "timer_inv s \<Longrightarrow> timer_inv (step e s)"
  by (cases e)
     (auto simp: timer_inv_def handler_defs split: list.splits option.splits if_splits)

lemma socket_inv_construct: "socket_inv (construct arg)"
  by (simp add: socket_inv_def construct_def connect_def)

lemma socket_inv_step: "socket_inv s \<Longrightarrow> socket_inv (step e s)"
  by (cases e)
     (auto simp: socket_inv_def handler_defs split: list.splits option.splits if_splits)

lemma emitted_inv_construct: "emitted_inv (construct arg)"
  by (simp add: emitted_inv_def construct_def connect_def)

lemma emitted_inv_step: "emitted_inv s \<Longrightarrow> emitted_inv (step e s)"
  by (cases e)
     (auto simp: emitted_inv_def handler_defs split: list.splits option.splits if_splits)

lemma observer_inv_distinct:
  "observer_inv False ob \<Longrightarrow> observer_inv False (distinctUntilChanged v ob)"
  by (auto simp: observer_inv_def distinctUntilChanged_def distinct_adj_append_iff
      split: option.splits)

lemma observer_inv_complete:
  "observer_inv False ob \<Longrightarrow> observer_inv True (ob\<lparr>received := received ob @ [Complete]\<rparr>)"
  by (auto simp: observer_inv_def distinct_adj_append_iff split: option.splits)

lemma observer_inv_new: "observer_inv b \<lparr>last_value = None, received = (if b then [Complete] else [])\<rparr>"
  by (simp add: observer_inv_def)

lemma status_inv_construct: "status_inv (construct arg)"
  by (simp add: status_inv_def construct_def connect_def)

lemma status_inv_next: "status_inv s \<Longrightarrow> status_inv (connectionStatus_next v s)"
  by (auto simp: status_inv_def connectionStatus_next_def status_subscription_def reconnect_def
      Let_def list_all_iff observer_inv_distinct)

lemma status_inv_complete:
  "status_inv s \<Longrightarrow> isStopped s \<Longrightarrow> status_inv (connectionStatus_complete s)"
  by (auto simp: status_inv_def connectionStatus_complete_def list_all_iff observer_inv_complete)

lemma status_inv_fields:
  "statusStopped s' = statusStopped s \<Longrightarrow> status_observers s' = status_observers s \<Longrightarrow>
   (isStopped s \<longrightarrow> isStopped s') \<Longrightarrow> status_inv s \<Longrightarrow> status_inv s'"
  by (simp add: status_inv_def)

lemma status_inv_step: "status_inv s \<Longrightarrow> status_inv (step e s)"
proof (cases e)
  case Open
  assume "status_inv s" then show ?thesis
    by (simp add: Open openObserver_def status_inv_next)
next
  case Close
  assume "status_inv s"
  then have "status_inv (cleanSocket s)"
    by (rule status_inv_fields [rotated 3]) (simp_all add: cleanSocket_def split: option.splits)
  then show ?thesis
    by (simp add: Close closeObserver_def status_inv_next)
next
  case (Message k m)
  assume "status_inv s" then show ?thesis
    by (auto simp: Message socket_next_def this_next_def status_inv_def)
next
  case (SocketError k err)
  assume "status_inv s" then show ?thesis
    by (auto simp: SocketError socket_error_def this_error_def status_inv_def reconnect_def
        cleanReconnection_def split: option.splits)
next
  case (Tick t)
  assume inv: "status_inv s"
  show ?thesis
  proof (cases "map_of (timers s) t")
    case None
    with inv show ?thesis by (simp add: Tick tick_def)
  next
    case (Some i)
    show ?thesis
    proof (cases "index_less i (reconnectAttempts' s) \<and> socket s = None")
      case True
      with inv Some show ?thesis
        by (auto simp: Tick tick_def connect_def status_inv_def)
    next
      case False
      let ?s1 = "cleanReconnection (s\<lparr>timers := filter (\<lambda>p. fst p \<noteq> t) (timers s)\<rparr>)"
      from inv have s1: "status_inv ?s1"
        by (rule status_inv_fields [rotated 3]) (simp_all add: cleanReconnection_def split: option.splits)
      then have "status_inv (this_complete ?s1)"
        by (rule status_inv_fields [rotated 3]) (simp_all add: this_complete_def)
      moreover have "isStopped (this_complete ?s1)"
        by (simp add: this_complete_def)
      ultimately have "status_inv (connectionStatus_complete (this_complete ?s1))"
        by (rule status_inv_complete)
      with s1 False Some show ?thesis
        by (auto simp: Tick tick_def reconnection_complete_def Let_def)
    qed
  qed
next
  case (Send d)
  assume "status_inv s" then show ?thesis
    by (auto simp: Send send_def status_inv_def split: option.splits)
next
  case SubscribeStatus
  assume "status_inv s" then show ?thesis
    by (auto simp: SubscribeStatus subscribe_status_def status_inv_def observer_inv_new)
next
  case Subscribe
  assume "status_inv s" then show ?thesis
    by (auto simp: Subscribe this_subscribe_def status_inv_def)
qed

lemma subject_inv_construct: "subject_inv (construct arg)"
  by (simp add: subject_inv_def construct_def connect_def)

lemma observer_next_inv:
  "subject_observer_inv False ob \<Longrightarrow> subject_observer_inv False (observer_next m ob)"
  by (simp add: subject_observer_inv_def observer_next_def)

lemma observer_end_inv:
  "subject_observer_inv b ob \<Longrightarrow> terminal n \<Longrightarrow> subject_observer_inv True (observer_end n ob)"
  by (simp add: subject_observer_inv_def observer_end_def)

lemma subject_inv_fields:
  "isStopped s' = isStopped s \<Longrightarrow> thrownError s' = thrownError s \<Longrightarrow>
   observers s' = observers s \<Longrightarrow> subject_inv s \<Longrightarrow> subject_inv s'"
  by (simp add: subject_inv_def)

lemma subject_inv_next: "subject_inv s \<Longrightarrow> subject_inv (this_next m s)"
  by (auto simp: subject_inv_def this_next_def list_all_iff observer_next_inv)

lemma subject_inv_error: "subject_inv s \<Longrightarrow> subject_inv (this_error err s)"
  by (auto simp: subject_inv_def this_error_def list_all_iff intro: observer_end_inv)

lemma subject_inv_complete: "subject_inv s \<Longrightarrow> subject_inv (this_complete s)"
  by (auto simp: subject_inv_def this_complete_def list_all_iff intro: observer_end_inv)

lemma subject_inv_subscribe: "subject_inv s \<Longrightarrow> subject_inv (this_subscribe s)"
  by (auto simp: subject_inv_def this_subscribe_def subject_observer_inv_def split: option.splits)

lemma subject_inv_status_next: "subject_inv s \<Longrightarrow> subject_inv (connectionStatus_next v s)"
  by (auto simp: subject_inv_def connectionStatus_next_def status_subscription_def reconnect_def
      Let_def)

lemma subject_inv_status_complete: "subject_inv s \<Longrightarrow> subject_inv (connectionStatus_complete s)"
  by (auto simp: subject_inv_def connectionStatus_complete_def)

lemma subject_inv_cleanSocket: "subject_inv s \<Longrightarrow> subject_inv (cleanSocket s)"
  by (auto simp: subject_inv_def cleanSocket_def split: option.splits)

lemma subject_inv_cleanReconnection: "subject_inv s \<Longrightarrow> subject_inv (cleanReconnection s)"
  by (auto simp: subject_inv_def cleanReconnection_def split: option.splits)

lemma subject_inv_connect: "subject_inv s \<Longrightarrow> subject_inv (connect s)"
  by (auto simp: subject_inv_def connect_def)

lemma subject_inv_reconnect: "subject_inv s \<Longrightarrow> subject_inv (reconnect s)"
  by (auto simp: subject_inv_def reconnect_def)

lemma subject_inv_update:
  "subject_inv s \<Longrightarrow> subject_inv (s\<lparr>timers := ts\<rparr>) \<and> subject_inv (s\<lparr>subscribed := ks\<rparr>) \<and>
     subject_inv (s\<lparr>transport := cs\<rparr>) \<and> subject_inv (s\<lparr>status_observers := os\<rparr>)"
  by (simp add: subject_inv_def)

lemma subject_inv_step: "subject_inv s \<Longrightarrow> subject_inv (step e s)"
proof (cases e)
  case Open
  assume "subject_inv s" then show ?thesis
    by (simp add: Open openObserver_def subject_inv_status_next)
next
  case Close
  assume "subject_inv s" then show ?thesis
    by (simp add: Close closeObserver_def subject_inv_status_next subject_inv_cleanSocket)
next
  case (Message k m)
  assume "subject_inv s" then show ?thesis
    by (simp add: Message socket_next_def subject_inv_next)
next
  case (SocketError k err)
  assume "subject_inv s" then show ?thesis
    by (simp add: SocketError socket_error_def subject_inv_error subject_inv_reconnect
        subject_inv_cleanReconnection subject_inv_update)
next
  case (Tick t)
  assume "subject_inv s" then show ?thesis
    by (simp add: Tick tick_def reconnection_complete_def Let_def subject_inv_connect
        subject_inv_status_complete subject_inv_complete subject_inv_cleanReconnection
        subject_inv_update split: option.splits)
next
  case (Send d)
  assume "subject_inv s" then show ?thesis
    by (simp add: Send send_def subject_inv_update split: option.splits)
next
  case SubscribeStatus
  assume "subject_inv s" then show ?thesis
    by (simp add: SubscribeStatus subscribe_status_def subject_inv_update)
next
  case Subscribe
  assume "subject_inv s" then show ?thesis
    by (simp add: Subscribe subject_inv_subscribe)
qed

lemma invariant_construct: "invariant (construct arg)"
  by (simp add: invariant_def timer_inv_construct socket_inv_construct emitted_inv_construct
      status_inv_construct subject_inv_construct)

lemma invariant_step: "invariant s \<Longrightarrow> invariant (step e s)"
  by (simp add: invariant_def timer_inv_step socket_inv_step emitted_inv_step status_inv_step
      subject_inv_step)

lemma invariant_run: "invariant s \<Longrightarrow> invariant (run evs s)"
  unfolding run_def by (induction evs arbitrary: s) (simp_all add: invariant_step)

lemma invariant_reachable: "invariant (run evs (construct arg))"
  by (rule invariant_run [OF invariant_construct])

lemma config_step:
  "reconnectInterval' (step e s) = reconnectInterval' s \<and>
   reconnectAttempts' (step e s) = reconnectAttempts' s"
  by (cases e) (auto simp: handler_defs split: option.splits)

lemma config_run:
  "reconnectInterval' (run evs s) = reconnectInterval' s \<and>
   reconnectAttempts' (run evs s) = reconnectAttempts' s"
  unfolding run_def by (induction evs arbitrary: s) (simp_all add: config_step)

lemma config_construct:
  "reconnectInterval' (construct arg) = or_default (config_reconnectInterval arg) (Num 5000) \<and>
   reconnectAttempts' (construct arg) = or_default (config_reconnectAttempts arg) (Num 10)"
  by (simp add: construct_def connect_def)

lemma or_default_falsy:
  "x = None \<or> (\<exists>n. x = Some n \<and> \<not> number_truthy n) \<Longrightarrow> or_default x d = d"
  by (cases x) auto

text \<open>
  Claim C10. When \<open>reconnectInterval\<close> (\<open>reconnectAttempts\<close>) is absent or falsy (0 or
  \<open>NaN\<close>), the channel's retry interval is 5000 (its retry limit 10) from construction on,
  whatever happens to the channel; the timer then lets the ticks of index 0 to 9 through.
  In particular \<open>reconnectAttempts: 0\<close> gives the limit 10.
\<close>

theorem falsy_reconnect_settings_take_defaults:
  "(config_reconnectInterval arg = None \<or>
    (\<exists>n. config_reconnectInterval arg = Some n \<and> \<not> number_truthy n) \<longrightarrow>
      reconnectInterval' (run evs (construct arg)) = Num 5000) \<and>
   (config_reconnectAttempts arg = None \<or>
    (\<exists>n. config_reconnectAttempts arg = Some n \<and> \<not> number_truthy n) \<longrightarrow>
      reconnectAttempts' (run evs (construct arg)) = Num 10 \<and>
      index_less i (reconnectAttempts' (run evs (construct arg))) = (i < 10)) \<and>
   reconnectAttempts' (construct (Config (c\<lparr>reconnectAttempts := Some (Num 0)\<rparr>))) = Num 10"
proof (intro conjI impI)
  assume "config_reconnectInterval arg = None \<or>
    (\<exists>n. config_reconnectInterval arg = Some n \<and> \<not> number_truthy n)"
  then show "reconnectInterval' (run evs (construct arg)) = Num 5000"
    by (simp only: config_run config_construct or_default_falsy)
next
  assume "config_reconnectAttempts arg = None \<or>
    (\<exists>n. config_reconnectAttempts arg = Some n \<and> \<not> number_truthy n)"
  then show a: "reconnectAttempts' (run evs (construct arg)) = Num 10"
    by (simp only: config_run config_construct or_default_falsy)
  show "index_less i (reconnectAttempts' (run evs (construct arg))) = (i < 10)"
    by (simp add: a)
next
  show "reconnectAttempts' (construct (Config (c\<lparr>reconnectAttempts := Some (Num 0)\<rparr>))) = Num 10"
    by (simp add: config_construct)
qed

theorem falsy_reconnect_settings_take_defaults_witness:
  "reconnectInterval' (run [Close] (construct (Url ''ws://x''))) = Num 5000 \<and>
   reconnectAttempts' (run [Close] (construct (Url ''ws://x''))) = Num 10 \<and>
   reconnectInterval'
     (construct (Config \<lparr>url = ''ws://x'', protocol = None, binaryType = None,
                         reconnectInterval = Some NaN, reconnectAttempts = Some (Num 0)\<rparr>)) = Num 5000 \<and>
   reconnectAttempts'
     (construct (Config \<lparr>url = ''ws://x'', protocol = None, binaryType = None,
                         reconnectInterval = Some NaN, reconnectAttempts = Some (Num 0)\<rparr>)) = Num 10"
  using falsy_reconnect_settings_take_defaults [where arg = "Url ''ws://x''" and evs = "[Close]"]
    falsy_reconnect_settings_take_defaults
      [where arg = "Config \<lparr>url = ''ws://x'', protocol = None, binaryType = None,
                         reconnectInterval = Some NaN, reconnectAttempts = Some (Num 0)\<rparr>" and evs = "[]"]
  by (simp add: run_def)

lemma emitted_error_last:
  assumes "emitted_inv s" and "Error e \<in> set (emitted s)"
  shows "\<exists>vs. emitted s = map Next vs @ [Error e]"
proof -
  have nexts: "list_all (\<lambda>n. \<not> terminal n) ns \<Longrightarrow> \<exists>vs. ns = map Next vs" for ns :: "jsval notification list"
  proof (induction ns)
    case Nil
    then show ?case by simp
  next
    case (Cons n ns)
    then obtain vs where vs: "ns = map Next vs" by auto
    from Cons.prems obtain v where "n = Next v" by (cases n) simp_all
    with vs have "n # ns = map Next (v # vs)" by simp
    then show ?case by (rule exI)
  qed
  have notin: "list_all (\<lambda>n. \<not> terminal n) ns \<Longrightarrow> Error e \<notin> set ns" for ns :: "jsval notification list"
    by (auto simp: list_all_iff)
  have st: "isStopped s"
  proof (rule ccontr)
    assume "\<not> isStopped s"
    with assms(1) have "list_all (\<lambda>n. \<not> terminal n) (emitted s)"
      by (simp add: emitted_inv_def)
    from notin [OF this] assms(2) show False by simp
  qed
  with assms have ne: "emitted s \<noteq> []" and bl: "list_all (\<lambda>n. \<not> terminal n) (butlast (emitted s))"
    by (simp_all add: emitted_inv_def)
  from nexts [OF bl] obtain vs where vs: "butlast (emitted s) = map Next vs" by blast
  from ne have split: "emitted s = butlast (emitted s) @ [last (emitted s)]" by simp
  from notin [OF bl] assms(2) split have "last (emitted s) = Error e"
    by (metis Un_iff empty_iff empty_set set_ConsD set_append)
  with split vs show ?thesis by metis
qed

lemma stream_values:
  "list_all (\<lambda>n. \<not> terminal n) ns \<Longrightarrow> \<exists>vs. ns = map Next vs"
proof (induction ns)
  case Nil
  then show ?case by simp
next
  case (Cons n ns)
  then obtain vs where vs: "ns = map Next vs" by auto
  from Cons.prems obtain v where "n = Next v" by (cases n) simp_all
  with vs have "n # ns = map Next (v # vs)" by simp
  then show ?case by (rule exI)
qed

lemma stream_no_error: "list_all (\<lambda>n. \<not> terminal n) ns \<Longrightarrow> Error e \<notin> set ns"
  by (auto simp: list_all_iff)

lemma stream_error_last:
  assumes "ns \<noteq> []" and "list_all (\<lambda>n. \<not> terminal n) (butlast ns)" and "Error e \<in> set ns"
  shows "\<exists>vs. ns = map Next vs @ [Error e]"
proof -
  from stream_values [OF assms(2)] obtain vs where vs: "butlast ns = map Next vs" by blast
  from assms(1) have split: "ns = butlast ns @ [last ns]" by simp
  from stream_no_error [OF assms(2)] assms(3) split have "last ns = Error e"
    by (metis Un_iff empty_iff empty_set set_ConsD set_append)
  with split vs show ?thesis by metis
qed

lemma onError_of_error_stream:
  "onError_dollar (map Next vs @ [Error e]) = map (\<lambda>v. Next (Inl v)) vs @ [Next (Inr e), Complete]"
  by (simp add: onError_dollar_def catchError_of_values)

lemma observer_error_last:
  assumes "subject_observer_inv b ob" and "Error e \<in> set (seen ob)"
  shows "\<exists>vs. seen ob = map Next vs @ [Error e]"
proof (cases "active ob")
  case True
  with assms(1) have "list_all (\<lambda>n. \<not> terminal n) (seen ob)"
    by (simp add: subject_observer_inv_def)
  from stream_no_error [OF this] assms(2) show ?thesis by simp
next
  case False
  with assms(1) have "seen ob \<noteq> []" and "list_all (\<lambda>n. \<not> terminal n) (butlast (seen ob))"
    by (simp_all add: subject_observer_inv_def)
  then show ?thesis using assms(2) by (rule stream_error_last)
qed

lemma socket_error_step:
  assumes "socket_inv s" and "k \<in> set (subscribed s)"
  shows "step (SocketError k err) s = this_error err (s\<lparr>subscribed := removeAll k (subscribed s)\<rparr>)"
  using assms by (auto simp: socket_inv_def socket_error_def split: list.splits)

text \<open>
  Claim C9, amended. In every state a constructed channel can reach: an observer of the
  channel's stream that has received an error has received values and then that error,
  and as a subscriber of \<open>onError$\<close> it receives the values, then the error as a value,
  then the completion of the view; the view never fails. A socket error that arrives while
  the socket's subscription is open reaches every observer the subject still holds, and
  is from then on the subject's \<open>thrownError\<close>; a subscriber that arrives once the subject
  has an error receives that \<open>thrownError\<close>, the error of the latest such socket error.
\<close>

theorem onError_emits_error_then_completes:
  assumes "s = run evs (construct arg)"
  shows
   "(Error e \<in> set (emitted s) \<longrightarrow>
       (\<exists>vs. emitted s = map Next vs @ [Error e] \<and>
             onError_dollar (emitted s) = map (\<lambda>v. Next (Inl v)) vs @ [Next (Inr e), Complete])) \<and>
    (ob \<in> set (observers s) \<and> Error e \<in> set (seen ob) \<longrightarrow>
       (\<exists>vs. seen ob = map Next vs @ [Error e] \<and>
             onError_dollar (seen ob) = map (\<lambda>v. Next (Inl v)) vs @ [Next (Inr e), Complete])) \<and>
    (k \<in> set (subscribed s) \<longrightarrow>
       thrownError (step (SocketError k err) s) = Some err \<and>
       (\<not> isStopped s \<longrightarrow> emitted (step (SocketError k err) s) = emitted s @ [Error err]) \<and>
       (j < length (observers s) \<and> active (observers s ! j) \<longrightarrow>
          seen (observers (step (SocketError k err) s) ! j) = seen (observers s ! j) @ [Error err])) \<and>
    (thrownError s = Some e \<longrightarrow>
       observers (step Subscribe s) = observers s @ [\<lparr>seen = [Error e], active = False\<rparr>] \<and>
       onError_dollar [Error e] = [Next (Inr e), Complete]) \<and>
    Error e' \<notin> set (onError_dollar ns)"
proof -
  have inv: "invariant s"
    using invariant_reachable [of evs arg] assms by simp
  then have einv: "emitted_inv s" and sinv: "socket_inv s" and oinv: "subject_inv s"
    by (simp_all add: invariant_def)
  have first: "\<exists>vs. emitted s = map Next vs @ [Error e] \<and>
      onError_dollar (emitted s) = map (\<lambda>v. Next (Inl v)) vs @ [Next (Inr e), Complete]"
    if "Error e \<in> set (emitted s)"
  proof -
    from emitted_error_last [OF einv that] obtain vs where vs: "emitted s = map Next vs @ [Error e]"
      by blast
    show ?thesis
      by (intro exI [of _ vs]) (simp add: vs onError_of_error_stream)
  qed
  have any: "\<exists>vs. seen ob = map Next vs @ [Error e] \<and>
      onError_dollar (seen ob) = map (\<lambda>v. Next (Inl v)) vs @ [Next (Inr e), Complete]"
    if "ob \<in> set (observers s) \<and> Error e \<in> set (seen ob)"
  proof -
    from that oinv have "subject_observer_inv (isStopped s) ob"
      by (simp add: subject_inv_def list_all_iff)
    from observer_error_last [OF this] that obtain vs where vs: "seen ob = map Next vs @ [Error e]"
      by blast
    show ?thesis
      by (intro exI [of _ vs]) (simp add: vs onError_of_error_stream)
  qed
  have err: "thrownError (step (SocketError k err) s) = Some err \<and>
       (\<not> isStopped s \<longrightarrow> emitted (step (SocketError k err) s) = emitted s @ [Error err]) \<and>
       (j < length (observers s) \<and> active (observers s ! j) \<longrightarrow>
          seen (observers (step (SocketError k err) s) ! j) = seen (observers s ! j) @ [Error err])"
    if "k \<in> set (subscribed s)"
    unfolding socket_error_step [OF sinv that]
    by (simp add: this_error_def observer_end_def)
  have late: "observers (step Subscribe s) = observers s @ [\<lparr>seen = [Error e], active = False\<rparr>] \<and>
       onError_dollar [Error e] = [Next (Inr e), Complete]"
    if "thrownError s = Some e"
    using that by (simp add: this_subscribe_def onError_dollar_def)
  have never: "Error e' \<notin> set (onError_dollar ns)"
    by (simp add: onError_dollar_def catchError_of_no_error)
  from first any err late never show ?thesis by blast
qed

theorem onError_emits_error_then_completes_witness:
  "map seen (observers (run [Subscribe, Open, Message 0 (JStr ''m''), SocketError 0 (TransportError ''lost'')]
              (construct (Url ''ws://x''))))
     = [[Next (JStr ''m''), Error (TransportError ''lost'')]] \<and>
   map (\<lambda>ob. onError_dollar (seen ob))
       (observers (run [Subscribe, Open, Message 0 (JStr ''m''), SocketError 0 (TransportError ''lost'')]
              (construct (Url ''ws://x''))))
     = [[Next (Inl (JStr ''m'')), Next (Inr (TransportError ''lost'')), Complete]] \<and>
   onError_dollar (emitted (run [Subscribe, Open, Message 0 (JStr ''m''), SocketError 0 (TransportError ''lost'')]
              (construct (Url ''ws://x''))))
     = [Next (Inl (JStr ''m'')), Next (Inr (TransportError ''lost'')), Complete] \<and>
   map seen (observers (step Subscribe
       (run [Subscribe, Open, Message 0 (JStr ''m''), SocketError 0 (TransportError ''lost'')]
              (construct (Url ''ws://x'')))))
     = [[Next (JStr ''m''), Error (TransportError ''lost'')], [Error (TransportError ''lost'')]]"
  using onError_emits_error_then_completes
      [where evs = "[Subscribe, Open, Message 0 (JStr ''m''), SocketError 0 (TransportError ''lost'')]"
         and arg = "Url ''ws://x''" and e = "TransportError ''lost''"
         and ob = "\<lparr>seen = [Next (JStr ''m''), Error (TransportError ''lost'')], active = False\<rparr>"
         and k = 0 and j = 0 and err = TypeError, OF refl]
    onError_emits_error_then_completes
      [where evs = "[Subscribe, Open, Message 0 (JStr ''m'')]"
         and arg = "Url ''ws://x''" and e = "TransportError ''lost''"
         and ob = "\<lparr>seen = [], active = True\<rparr>"
         and k = 0 and j = 0 and err = "TransportError ''lost''", OF refl]
  by (simp add: run_def construct_def handler_defs onError_dollar_def observer_next_def observer_end_def)

text \<open>
  Claim C9 as stated fails. When a socket error terminates the channel's stream, a
  subscriber of \<open>onError$\<close> receives the error as a value and then the completion of
  the view: the error does end it. And after a second socket error, on the socket of a
  retry, a new subscriber of \<open>onError$\<close> receives the second error, not the one the
  channel's stream terminated with.
\<close>

theorem onError_completes_and_late_subscriber_gets_last_error:
  "onError_dollar
     (emitted (run [Open, SocketError 0 (TransportError ''lost'')] (construct (Url ''ws://x''))))
     = [Next (Inr (TransportError ''lost'')), Complete] \<and>
   emitted (run [Subscribe, Open, SocketError 0 (TransportError ''lost''), Close, Tick 1,
                 SocketError 2 (TransportError ''refused''), Subscribe] (construct (Url ''ws://x'')))
     = [Error (TransportError ''lost'')] \<and>
   map (\<lambda>ob. onError_dollar (seen ob))
     (observers (run [Subscribe, Open, SocketError 0 (TransportError ''lost''), Close, Tick 1,
                      SocketError 2 (TransportError ''refused''), Subscribe] (construct (Url ''ws://x''))))
     = [[Next (Inr (TransportError ''lost'')), Complete],
        [Next (Inr (TransportError ''refused'')), Complete]]"
  by (simp add: run_def construct_def handler_defs onError_dollar_def observer_next_def observer_end_def)

section \<open>The reconnection session\<close>

lemma timers_cases:
  assumes "timer_inv s"
  obtains "timers s = []" "\<not> reconnectionObservable s"
  | t i where "timers s = [(t, i)]" "reconnectionObservable s" "reconnectionSubscription s = Some t"
  using assms by (auto simp: timer_inv_def split: list.splits)

text \<open>
  Claim C8, amended. In every state a constructed channel can reach there is at most one
  retry timer. While one is subscribed, the callback of the status stream does nothing,
  a close notification leaves the timer and its index as they are, and so does a socket
  error: an attempt to start a session is a no-op. The timer's tick that finds a socket
  present (a reconnect under way or done), or its index at the retry limit, ends the
  session: no timer is left and \<open>_reconnectionObservable\<close> is undefined.
\<close>

theorem at_most_one_reconnection_session:
  assumes "s = run evs (construct arg)"
  shows "length (timers s) \<le> 1 \<and>
    (timers s \<noteq> [] \<longrightarrow>
       status_subscription v s = s \<and> timers (step Close s) = timers s \<and>
       timers (step (SocketError k err) s) = timers s) \<and>
    (map_of (timers s) t = Some i \<and> (socket s \<noteq> None \<or> \<not> index_less i (reconnectAttempts' s)) \<longrightarrow>
       timers (step (Tick t) s) = [] \<and> \<not> reconnectionObservable (step (Tick t) s))"
proof -
  have inv: "timer_inv s" and sinv: "socket_inv s"
    using invariant_reachable [of evs arg] assms by (simp_all add: invariant_def)
  have err: "timers (step (SocketError k err) s) = timers s"
    using sinv by (auto simp: socket_inv_def socket_error_def this_error_def split: list.splits)
  show ?thesis
  proof (rule timers_cases [OF inv])
    assume "timers s = []" "\<not> reconnectionObservable s"
    then show ?thesis by simp
  next
    fix t' i'
    assume a: "timers s = [(t', i')]" "reconnectionObservable s" "reconnectionSubscription s = Some t'"
    have one: "length (timers s) \<le> 1"
      using a by simp
    have noop: "status_subscription v s = s"
      using a by (simp add: status_subscription_def)
    have close: "timers (step Close s) = timers s"
      using a by (simp add: closeObserver_def connectionStatus_next_def status_subscription_def
          cleanSocket_def Let_def split: option.splits)
    have ends: "timers (step (Tick t) s) = [] \<and> \<not> reconnectionObservable (step (Tick t) s)"
      if "map_of (timers s) t = Some i" "socket s \<noteq> None \<or> \<not> index_less i (reconnectAttempts' s)"
      using that a
      by (auto simp: tick_def reconnection_complete_def cleanReconnection_def this_complete_def
          connectionStatus_complete_def Let_def split: if_splits)
    from one noop close err ends show ?thesis by blast
  qed
qed

theorem at_most_one_reconnection_session_witness:
  "timers (run [Close] (construct (Url ''ws://x''))) = [(1, 0)] \<and>
   timers (step Close (run [Close] (construct (Url ''ws://x'')))) = [(1, 0)] \<and>
   timers (run [Close, Tick 1] (construct (Url ''ws://x''))) = [(1, 1)] \<and>
   socket (run [Close, Tick 1] (construct (Url ''ws://x''))) = Some 2 \<and>
   timers (step (Tick 1) (run [Close, Tick 1] (construct (Url ''ws://x'')))) = []"
  using at_most_one_reconnection_session
      [where evs = "[Close]" and arg = "Url ''ws://x''" and v = False and t = 1 and i = 0
         and k = 0 and err = TypeError, OF refl]
    at_most_one_reconnection_session
      [where evs = "[Close, Tick 1]" and arg = "Url ''ws://x''" and v = False and t = 1 and i = 1
         and k = 2 and err = TypeError, OF refl]
  by (simp add: run_def construct_def handler_defs)

text \<open>
  Claim C8 as stated fails: a successful reconnect does not destroy the session. With a
  retry limit of 2, the first retry opens (the status stream reports \<open>true\<close>) and the
  timer stays, at index 1; when that connection closes before the next tick the same
  session goes on, so that one more attempt is made, not two, before the channel
  completes.
\<close>

theorem session_survives_reconnect_between_ticks:
  "timers (run [Close, Tick 1, Open]
      (construct (Config \<lparr>url = ''ws://x'', protocol = None, binaryType = None,
          reconnectInterval = Some (Num 1000), reconnectAttempts = Some (Num 2)\<rparr>))) = [(1, 1)] \<and>
   map received (status_observers (run [SubscribeStatus, Close, Tick 1, Open]
      (construct (Config \<lparr>url = ''ws://x'', protocol = None, binaryType = None,
          reconnectInterval = Some (Num 1000), reconnectAttempts = Some (Num 2)\<rparr>))))
     = [[Next False, Next True]] \<and>
   timers (run [Close, Tick 1, Open, Close]
      (construct (Config \<lparr>url = ''ws://x'', protocol = None, binaryType = None,
          reconnectInterval = Some (Num 1000), reconnectAttempts = Some (Num 2)\<rparr>))) = [(1, 1)] \<and>
   transport (run [Close, Tick 1, Open, Close, Tick 1, Close, Tick 1]
      (construct (Config \<lparr>url = ''ws://x'', protocol = None, binaryType = None,
          reconnectInterval = Some (Num 1000), reconnectAttempts = Some (Num 2)\<rparr>)))
     = [NewSocket 0, NewSocket 2, NewSocket 3] \<and>
   emitted (run [Close, Tick 1, Open, Close, Tick 1, Close, Tick 1]
      (construct (Config \<lparr>url = ''ws://x'', protocol = None, binaryType = None,
          reconnectInterval = Some (Num 1000), reconnectAttempts = Some (Num 2)\<rparr>))) = [Complete]"
  by (simp add: run_def construct_def handler_defs distinctUntilChanged_def)

section \<open>The connection-status stream\<close>

lemma status_next_observers:
  "status_observers (connectionStatus_next v s) =
     (if statusStopped s then status_observers s
      else map (distinctUntilChanged v) (status_observers s))"
  by (simp add: connectionStatus_next_def status_subscription_def reconnect_def Let_def)

lemma observer_received:
  "observer_inv False ob \<Longrightarrow>
   received (distinctUntilChanged v ob) =
     received ob @ (if received ob = [] \<or> last (received ob) \<noteq> Next v then [Next v] else [])"
  by (auto simp: observer_inv_def distinctUntilChanged_def split: option.splits)

lemma status_next_received:
  assumes "status_inv s" and "j < length (status_observers s)"
  shows "received (status_observers (connectionStatus_next v s) ! j) =
     received (status_observers s ! j) @
       (if \<not> statusStopped s \<and>
           (received (status_observers s ! j) = [] \<or> last (received (status_observers s ! j)) \<noteq> Next v)
        then [Next v] else [])"
proof (cases "statusStopped s")
  case True
  then show ?thesis by (simp add: status_next_observers)
next
  case False
  with assms have "observer_inv False (status_observers s ! j)"
    by (simp add: status_inv_def list_all_length)
  from observer_received [OF this, of v] False assms(2) show ?thesis
    by (simp add: status_next_observers)
qed

lemma status_inv_cleanSocket: "status_inv s \<Longrightarrow> status_inv (cleanSocket s)"
  by (auto simp: status_inv_def cleanSocket_def split: option.splits)

lemma cleanSocket_status:
  "status_observers (cleanSocket s) = status_observers s \<and> statusStopped (cleanSocket s) = statusStopped s"
  by (simp add: cleanSocket_def split: option.splits)

lemma exhaustion_tick_stops:
  assumes "map_of (timers s) t = Some i" and "\<not> index_less i (reconnectAttempts' s)" and "socket s = None"
  shows "statusStopped (step (Tick t) s) \<and> isStopped (step (Tick t) s)"
  using assms
  by (auto simp: tick_def reconnection_complete_def cleanReconnection_def this_complete_def
      connectionStatus_complete_def Let_def split: option.splits)

text \<open>
  Claim C3, amended. In every state a constructed channel can reach, no subscriber of the
  connection-status stream has received the same value twice in a row. After an open
  (close) notification a subscriber receives \<open>true\<close> (\<open>false\<close>) exactly when the status
  stream has not completed and the value differs from the one it received last, or is its
  first. The tick that exhausts the retries with no socket present completes the status
  stream together with the channel's own stream, and every subscriber receives the
  completion; the status stream is never completed while the channel's own stream runs.
\<close>

theorem status_stream_distinct_per_subscriber:
  assumes "s = run evs (construct arg)"
  shows "(\<forall>ob \<in> set (status_observers s). distinct_adj (received ob)) \<and>
    (j < length (status_observers s) \<longrightarrow>
       received (status_observers (step Open s) ! j) =
         received (status_observers s ! j) @
           (if \<not> statusStopped s \<and>
               (received (status_observers s ! j) = [] \<or>
                last (received (status_observers s ! j)) \<noteq> Next True)
            then [Next True] else []) \<and>
       received (status_observers (step Close s) ! j) =
         received (status_observers s ! j) @
           (if \<not> statusStopped s \<and>
               (received (status_observers s ! j) = [] \<or>
                last (received (status_observers s ! j)) \<noteq> Next False)
            then [Next False] else [])) \<and>
    (map_of (timers s) t = Some i \<and> \<not> index_less i (reconnectAttempts' s) \<and> socket s = None \<longrightarrow>
       isStopped (step (Tick t) s) \<and> statusStopped (step (Tick t) s) \<and>
       (\<forall>ob \<in> set (status_observers (step (Tick t) s)).
          received ob \<noteq> [] \<and> last (received ob) = Complete)) \<and>
    (statusStopped s \<longrightarrow> isStopped s)"
proof -
  have inv: "status_inv s"
    using invariant_reachable [of evs arg] assms by (simp add: invariant_def)
  have distinct: "\<forall>ob \<in> set (status_observers s). distinct_adj (received ob)"
    using inv by (simp add: status_inv_def list_all_iff observer_inv_def)
  have "open": "received (status_observers (step Open s) ! j) =
         received (status_observers s ! j) @
           (if \<not> statusStopped s \<and>
               (received (status_observers s ! j) = [] \<or>
                last (received (status_observers s ! j)) \<noteq> Next True)
            then [Next True] else [])"
    if "j < length (status_observers s)"
    using status_next_received [OF inv that, of True] by (simp add: openObserver_def)
  have close: "received (status_observers (step Close s) ! j) =
         received (status_observers s ! j) @
           (if \<not> statusStopped s \<and>
               (received (status_observers s ! j) = [] \<or>
                last (received (status_observers s ! j)) \<noteq> Next False)
            then [Next False] else [])"
    if "j < length (status_observers s)"
    using status_next_received [OF status_inv_cleanSocket [OF inv], of j False] that
    by (simp add: closeObserver_def cleanSocket_status)
  have ends: "isStopped (step (Tick t) s) \<and> statusStopped (step (Tick t) s) \<and>
       (\<forall>ob \<in> set (status_observers (step (Tick t) s)).
          received ob \<noteq> [] \<and> last (received ob) = Complete)"
    if a: "map_of (timers s) t = Some i \<and> \<not> index_less i (reconnectAttempts' s) \<and> socket s = None"
  proof -
    from a have st: "statusStopped (step (Tick t) s) \<and> isStopped (step (Tick t) s)"
      using exhaustion_tick_stops [of s t i] by blast
    have "status_inv (step (Tick t) s)"
      by (rule status_inv_step [OF inv])
    with st show ?thesis
      by (simp add: status_inv_def list_all_iff observer_inv_def)
  qed
  have stopped: "statusStopped s \<longrightarrow> isStopped s"
    using inv by (simp add: status_inv_def)
  from distinct "open" close ends stopped show ?thesis by blast
qed

theorem status_stream_distinct_per_subscriber_witness:
  "map received (status_observers (run [SubscribeStatus, Close] (construct (Url ''ws://x''))))
     = [[Next False]] \<and>
   map received (status_observers (step Open (run [SubscribeStatus, Close] (construct (Url ''ws://x'')))))
     = [[Next False, Next True]] \<and>
   map received (status_observers (step Close (run [SubscribeStatus, Close] (construct (Url ''ws://x'')))))
     = [[Next False]] \<and>
   map received (status_observers (step (Tick 1) (run [SubscribeStatus, Close, Tick 1, Close]
       (construct (Config \<lparr>url = ''ws://x'', protocol = None, binaryType = None,
                           reconnectInterval = None, reconnectAttempts = Some (Num 1)\<rparr>)))))
     = [[Next False, Complete]]"
  using status_stream_distinct_per_subscriber
      [where evs = "[SubscribeStatus, Close]" and arg = "Url ''ws://x''" and j = 0 and t = 1 and i = 0,
       OF refl]
    status_stream_distinct_per_subscriber
      [where evs = "[SubscribeStatus, Close, Tick 1, Close]"
         and arg = "Config \<lparr>url = ''ws://x'', protocol = None, binaryType = None,
                           reconnectInterval = None, reconnectAttempts = Some (Num 1)\<rparr>"
         and j = 0 and t = 1 and i = 1, OF refl]
  by (simp add: run_def construct_def handler_defs distinctUntilChanged_def)

text \<open>
  Claim C3 as stated fails twice. Two close notifications in a row (the first connection
  fails, then the first retry) give the subscriber one \<open>false\<close>, not one after each. And
  when the channel's stream terminates with a socket error, the status stream is not
  completed.
\<close>

theorem status_stream_skips_repeated_close_and_survives_error:
  "map received (status_observers
      (run [SubscribeStatus, Close, Tick 1, Close] (construct (Url ''ws://x''))))
     = [[Next False]] \<and>
   emitted (run [SubscribeStatus, Open, SocketError 0 (TransportError ''lost'')] (construct (Url ''ws://x'')))
     = [Error (TransportError ''lost'')] \<and>
   statusStopped (run [SubscribeStatus, Open, SocketError 0 (TransportError ''lost'')]
      (construct (Url ''ws://x''))) = False \<and>
   map received (status_observers
      (run [SubscribeStatus, Open, SocketError 0 (TransportError ''lost'')] (construct (Url ''ws://x''))))
     = [[Next True]]"
  by (simp add: run_def construct_def handler_defs distinctUntilChanged_def)

section \<open>Retry exhaustion\<close>

lemma run_append: "run (xs @ ys) s = run ys (run xs s)"
  by (simp add: run_def)

lemma run_Cons: "run (e # evs) s = run evs (step e s)"
  by (simp add: run_def)

lemma run_Nil: "run [] s = s"
  by (simp add: run_def)

lemma retry_round:
  assumes "timer_inv s" and "timers s = [(t, i)]" and "socket s = None"
    and "index_less i (reconnectAttempts' s)"
  shows "timers (run [Tick t, Close] s) = [(t, Suc i)] \<and>
         socket (run [Tick t, Close] s) = None \<and>
         reconnectAttempts' (run [Tick t, Close] s) = reconnectAttempts' s \<and>
         isStopped (run [Tick t, Close] s) = isStopped s \<and>
         emitted (run [Tick t, Close] s) = emitted s \<and>
         transport (run [Tick t, Close] s) = transport s @ [NewSocket (next_id s)] \<and>
         next_id (run [Tick t, Close] s) = Suc (next_id s)"
  using assms
  by (auto simp: run_def timer_inv_def tick_def connect_def closeObserver_def cleanSocket_def
      connectionStatus_next_def status_subscription_def Let_def)

lemma retry_rounds:
  assumes "invariant s" and "timers s = [(t, i)]" and "socket s = None"
    and "reconnectAttempts' s = Num (int (i + n))"
  shows "invariant (run (concat (replicate n [Tick t, Close])) s) \<and>
         timers (run (concat (replicate n [Tick t, Close])) s) = [(t, i + n)] \<and>
         socket (run (concat (replicate n [Tick t, Close])) s) = None \<and>
         reconnectAttempts' (run (concat (replicate n [Tick t, Close])) s) = reconnectAttempts' s \<and>
         isStopped (run (concat (replicate n [Tick t, Close])) s) = isStopped s \<and>
         emitted (run (concat (replicate n [Tick t, Close])) s) = emitted s \<and>
         transport (run (concat (replicate n [Tick t, Close])) s)
           = transport s @ map NewSocket [next_id s ..< next_id s + n]"
  using assms
proof (induction n arbitrary: s i)
  case 0
  then show ?case by (simp add: run_def)
next
  case (Suc n)
  let ?s1 = "run [Tick t, Close] s"
  have lt: "index_less i (reconnectAttempts' s)"
    using Suc.prems(4) by simp
  have tinv: "timer_inv s"
    using Suc.prems(1) by (simp add: invariant_def)
  note r = retry_round [OF tinv Suc.prems(2) Suc.prems(3) lt]
  have inv1: "invariant ?s1"
    by (rule invariant_run [OF Suc.prems(1)])
  have att: "reconnectAttempts' ?s1 = Num (int (Suc i + n))"
    using r Suc.prems(4) by simp
  have t1: "timers ?s1 = [(t, Suc i)]" and s1: "socket ?s1 = None"
    using r by simp_all
  note ih = Suc.IH [OF inv1 t1 s1 att]
  have split: "run (concat (replicate (Suc n) [Tick t, Close])) s
      = run (concat (replicate n [Tick t, Close])) ?s1"
    by (simp add: run_def)
  have ids: "[next_id s ..< Suc (next_id s + n)] = next_id s # [Suc (next_id s) ..< Suc (next_id s + n)]"
    by (simp add: upt_conv_Cons del: upt_Suc)
  show ?case
    unfolding split using ih r by (simp add: ids del: upt_Suc)
qed

lemma exhausting_tick:
  assumes "invariant s" and "timers s = [(t, i)]" and "socket s = None"
    and "\<not> index_less i (reconnectAttempts' s)" and "\<not> isStopped s"
  shows "exhausted (step (Tick t) s) \<and> emitted (step (Tick t) s) = emitted s @ [Complete] \<and>
         transport (step (Tick t) s) = transport s"
proof -
  from assms(1) have "socket_inv s" and "timer_inv s"
    by (simp_all add: invariant_def)
  with assms(3) have sub: "subscribed s = []"
    by (auto simp: socket_inv_def split: list.splits)
  from \<open>timer_inv s\<close> assms(2) have rs: "reconnectionSubscription s = Some t"
    by (simp add: timer_inv_def)
  show ?thesis
    using assms(2-5) sub rs
    by (auto simp: exhausted_def tick_def reconnection_complete_def cleanReconnection_def
        this_complete_def connectionStatus_complete_def Let_def)
qed

lemma exhausted_step:
  "exhausted s \<Longrightarrow>
   exhausted (step e s) \<and> emitted (step e s) = emitted s \<and> transport (step e s) = transport s"
  by (cases e)
     (auto simp: exhausted_def handler_defs split: option.splits)

lemma exhausted_run:
  "exhausted s \<Longrightarrow>
   exhausted (run evs s) \<and> emitted (run evs s) = emitted s \<and> transport (run evs s) = transport s"
proof (induction evs arbitrary: s)
  case Nil
  then show ?case by (simp add: run_def)
next
  case (Cons e evs)
  from exhausted_step [OF Cons.prems, of e] Cons.IH [of "step e s"]
  show ?case by (simp add: run_Cons)
qed

lemma exhausted_send: "exhausted s \<Longrightarrow> send d s = Inl TypeError"
  by (simp add: exhausted_def send_def)

text \<open>
  Claim C1, amended. Take a channel whose own stream still runs, with no socket and a
  retry session just started (its timer at index 0), and a retry limit \<open>n\<close>. Let the timer
  tick \<open>n\<close> times, each connection attempt answered by a close notification and by no
  socket error, and then tick once more. That last tick completes the channel's stream (it
  does not fail) and the status stream; exactly \<open>n\<close> sockets were created. Whatever
  happens afterwards, the channel emits nothing more and asks nothing more of the
  transport, and every \<open>send\<close> throws a TypeError.
\<close>

theorem exhausted_retries_complete_channel:
  assumes "s = run pre (construct arg)" and "timers s = [(t, 0)]" and "socket s = None"
    and "\<not> isStopped s" and "reconnectAttempts' s = Num (int n)"
    and "s' = run (concat (replicate n [Tick t, Close]) @ [Tick t]) s"
  shows "emitted s' = emitted s @ [Complete] \<and> isStopped s' \<and> statusStopped s' \<and>
         transport s' = transport s @ map NewSocket [next_id s ..< next_id s + n] \<and>
         send d (run evs s') = Inl TypeError \<and>
         transport (run evs s') = transport s' \<and> emitted (run evs s') = emitted s'"
proof -
  let ?r = "run (concat (replicate n [Tick t, Close])) s"
  have inv: "invariant s"
    using invariant_reachable [of pre arg] assms(1) by simp
  have att: "reconnectAttempts' s = Num (int (0 + n))"
    using assms(5) by simp
  note r = retry_rounds [OF inv assms(2) assms(3) att]
  have last: "\<not> index_less n (reconnectAttempts' ?r)"
    using r assms(5) by simp
  have live: "\<not> isStopped ?r"
    using r assms(4) by simp
  have tm: "timers ?r = [(t, n)]"
    using r by simp
  have inv_r: "invariant ?r" and so: "socket ?r = None"
    using r by simp_all
  note x = exhausting_tick [OF inv_r tm so last live]
  have s': "s' = step (Tick t) ?r"
    using assms(6) by (simp add: run_append run_Cons run_Nil)
  have ex: "exhausted s'"
    using x s' by simp
  have a: "emitted s' = emitted s @ [Complete]"
    using x r s' by simp
  have b: "transport s' = transport s @ map NewSocket [next_id s ..< next_id s + n]"
    using x r s' by simp
  from ex a b exhausted_run [OF ex, of evs] exhausted_send [of "run evs s'" d]
  show ?thesis by (simp add: exhausted_def)
qed

theorem exhausted_retries_complete_channel_witness:
  "emitted (run [Close, Tick 1, Close, Tick 1, Close, Tick 1]
      (construct (Config \<lparr>url = ''ws://x'', protocol = None, binaryType = None,
          reconnectInterval = Some (Num 1000), reconnectAttempts = Some (Num 2)\<rparr>))) = [Complete] \<and>
   transport (run [Close, Tick 1, Close, Tick 1, Close, Tick 1]
      (construct (Config \<lparr>url = ''ws://x'', protocol = None, binaryType = None,
          reconnectInterval = Some (Num 1000), reconnectAttempts = Some (Num 2)\<rparr>)))
     = [NewSocket 0, NewSocket 2, NewSocket 3] \<and>
   send (JStr ''late'') (run [Open, Send (JStr ''later'')] (run [Close, Tick 1, Close, Tick 1, Close, Tick 1]
      (construct (Config \<lparr>url = ''ws://x'', protocol = None, binaryType = None,
          reconnectInterval = Some (Num 1000), reconnectAttempts = Some (Num 2)\<rparr>)))) = Inl TypeError"
  using exhausted_retries_complete_channel
    [where pre = "[Close]" and t = 1 and n = "Suc (Suc 0)" and d = "JStr ''late''"
       and evs = "[Open, Send (JStr ''later'')]"
       and arg = "Config \<lparr>url = ''ws://x'', protocol = None, binaryType = None,
          reconnectInterval = Some (Num 1000), reconnectAttempts = Some (Num 2)\<rparr>",
     OF refl _ _ _ _ refl]
  by (simp add: run_def construct_def handler_defs)

text \<open>
  Claim C1 as stated fails. With a retry limit of 2, two failed attempts do complete the
  channel's stream, on the third tick of the timer and not before; but a \<open>send\<close> after
  that throws a TypeError, which the caller observes. And when each failed attempt
  reports a socket error before its close notification, the channel's stream terminates
  with that error: it does not complete.
\<close>

theorem send_after_exhaustion_throws:
  "emitted (run [Close, Tick 1, Close, Tick 1, Close, Tick 1]
      (construct (Config \<lparr>url = ''ws://x'', protocol = None, binaryType = None,
          reconnectInterval = Some (Num 1000), reconnectAttempts = Some (Num 2)\<rparr>))) = [Complete] \<and>
   send (JStr ''late'') (run [Close, Tick 1, Close, Tick 1, Close, Tick 1]
      (construct (Config \<lparr>url = ''ws://x'', protocol = None, binaryType = None,
          reconnectInterval = Some (Num 1000), reconnectAttempts = Some (Num 2)\<rparr>))) = Inl TypeError \<and>
   emitted (run [Close, Tick 1, Close, Tick 1, Close]
      (construct (Config \<lparr>url = ''ws://x'', protocol = None, binaryType = None,
          reconnectInterval = Some (Num 1000), reconnectAttempts = Some (Num 2)\<rparr>))) = [] \<and>
   emitted (run [Close, Tick 1, SocketError 2 (TransportError ''refused''), Close,
                 Tick 1, SocketError 3 (TransportError ''refused''), Close, Tick 1]
      (construct (Config \<lparr>url = ''ws://x'', protocol = None, binaryType = None,
          reconnectInterval = Some (Num 1000), reconnectAttempts = Some (Num 2)\<rparr>)))
     = [Error (TransportError ''refused'')]"
  by (simp add: run_def construct_def handler_defs)

section \<open>Socket errors\<close>

lemma no_connect_without_close:
  "socket s \<noteq> None \<Longrightarrow> e \<noteq> Close \<Longrightarrow>
   socket (step e s) = socket s \<and>
   filter newSocket (transport (step e s)) = filter newSocket (transport s)"
  by (cases e) (auto simp: handler_defs split: option.splits)

lemma no_connect_before_close:
  "socket s \<noteq> None \<Longrightarrow> Close \<notin> set evs \<Longrightarrow>
   socket (run evs s) = socket s \<and>
   filter newSocket (transport (run evs s)) = filter newSocket (transport s)"
proof (induction evs arbitrary: s)
  case Nil
  then show ?case by (simp add: run_def)
next
  case (Cons e evs)
  from Cons.prems have e: "e \<noteq> Close" and evs: "Close \<notin> set evs"
    by auto
  note one = no_connect_without_close [OF Cons.prems(1) e]
  with Cons.prems(1) have "socket (step e s) \<noteq> None"
    by simp
  from Cons.IH [OF this evs] one show ?case
    by (simp add: run_def)
qed

text \<open>
  Claim C2, amended. A socket error received while a socket is present and the channel's
  stream still runs terminates that stream with the error; the callback keeps the socket
  and starts neither a timer nor a connection. As long as a socket is present and no close
  notification arrives, no event creates a new socket. A socket error received while no
  socket is present does not touch the channel's stream: it cancels the timer the channel
  holds and starts a new one at index 0.
\<close>

theorem socket_error_with_and_without_handle:
  "(socket s \<noteq> None \<and> \<not> isStopped s \<longrightarrow>
      emitted (socket_error err s) = emitted s @ [Error err] \<and>
      isStopped (socket_error err s) \<and>
      socket (socket_error err s) = socket s \<and>
      timers (socket_error err s) = timers s \<and>
      transport (socket_error err s) = transport s) \<and>
   (socket s \<noteq> None \<and> Close \<notin> set evs \<longrightarrow>
      socket (run evs s) = socket s \<and>
      filter newSocket (transport (run evs s)) = filter newSocket (transport s)) \<and>
   (socket s = None \<longrightarrow>
      reconnectionObservable (socket_error err s) \<and>
      reconnectionSubscription (socket_error err s) = Some (next_id s) \<and>
      timers (socket_error err s) =
        filter (\<lambda>p. Some (fst p) \<noteq> reconnectionSubscription s) (timers s) @ [(next_id s, 0)] \<and>
      emitted (socket_error err s) = emitted s \<and>
      isStopped (socket_error err s) = isStopped s)"
proof (intro conjI impI)
  assume a: "socket s \<noteq> None \<and> \<not> isStopped s"
  then show "emitted (socket_error err s) = emitted s @ [Error err]"
    and "isStopped (socket_error err s)"
    and "socket (socket_error err s) = socket s"
    and "timers (socket_error err s) = timers s"
    and "transport (socket_error err s) = transport s"
    by (auto simp: socket_error_def this_error_def)
next
  assume a: "socket s \<noteq> None \<and> Close \<notin> set evs"
  then show "socket (run evs s) = socket s"
    and "filter newSocket (transport (run evs s)) = filter newSocket (transport s)"
    using no_connect_before_close [of s evs] by simp_all
next
  assume a: "socket s = None"
  then show "reconnectionObservable (socket_error err s)"
    and "reconnectionSubscription (socket_error err s) = Some (next_id s)"
    and "emitted (socket_error err s) = emitted s"
    and "isStopped (socket_error err s) = isStopped s"
    by (simp_all add: socket_error_def reconnect_def cleanReconnection_def split: option.splits)
  from a show "timers (socket_error err s) =
        filter (\<lambda>p. Some (fst p) \<noteq> reconnectionSubscription s) (timers s) @ [(next_id s, 0)]"
    by (cases "reconnectionSubscription s")
       (simp_all add: socket_error_def reconnect_def cleanReconnection_def)
qed

theorem socket_error_with_and_without_handle_witness:
  "emitted (socket_error (TransportError ''lost'') (run [Open] (construct (Url ''ws://x''))))
     = [Error (TransportError ''lost'')] \<and>
   transport (run [SocketError 0 (TransportError ''lost''), Open, Send (JStr ''x'')]
                (run [Open] (construct (Url ''ws://x''))))
     = [NewSocket 0, SocketNext 0 (JStr ''x'')] \<and>
   timers (socket_error (TransportError ''lost'') (run [Close] (construct (Url ''ws://x''))))
     = [(2, 0)] \<and>
   emitted (socket_error (TransportError ''lost'') (run [Close] (construct (Url ''ws://x'')))) = []"
  using socket_error_with_and_without_handle
      [where s = "run [Open] (construct (Url ''ws://x''))" and err = "TransportError ''lost''"
         and evs = "[SocketError 0 (TransportError ''lost''), Open, Send (JStr ''x'')]"]
    socket_error_with_and_without_handle
      [where s = "run [Close] (construct (Url ''ws://x''))" and err = "TransportError ''lost''"
         and evs = "[]"]
  by (simp add: run_def construct_def handler_defs)

text \<open>
  Claim C2 as stated fails: after a socket error has terminated the channel's stream
  while a socket was present, the close notification of that socket starts a retry
  session, and its first tick creates a new socket. An error of that new socket, received
  while it is present, no longer reaches the observers of the channel's stream, which
  the first error has ended.
\<close>

theorem reconnect_after_fatal_socket_error:
  "socket (run [Open] (construct (Url ''ws://x''))) = Some 0 \<and>
   emitted (run [Open, SocketError 0 (TransportError ''lost'')] (construct (Url ''ws://x'')))
     = [Error (TransportError ''lost'')] \<and>
   transport (run [Open, SocketError 0 (TransportError ''lost'')] (construct (Url ''ws://x'')))
     = [NewSocket 0] \<and>
   transport (run [Open, SocketError 0 (TransportError ''lost''), Close, Tick 1]
                (construct (Url ''ws://x'')))
     = [NewSocket 0, NewSocket 2] \<and>
   emitted (run [Open, SocketError 0 (TransportError ''lost''), Close, Tick 1,
                 SocketError 2 (TransportError ''refused'')]
                (construct (Url ''ws://x'')))
     = [Error (TransportError ''lost'')]"
  by (simp add: run_def construct_def handler_defs)

end
